theory Spec2Isabelle
  imports Complex_Main "HOL-Library.Multiset"
begin

section \<open>Data model\<close>

text \<open>
  The engine of \<^verbatim>\<open>audio_engine.cpp\<close> keeps a vector of \<^verbatim>\<open>PlayingSound\<close> records, a vector
  of buses, two registries (sound banks and sound collections) and talks to SDL\_mixer.
  Pointers into \<^verbatim>\<open>buses_\<close> are indices into the bus list (\<^verbatim>\<open>nullptr\<close> is \<open>None\<close>);
  a \<^verbatim>\<open>SoundCollection*\<close> is the collection it points to, whose definition and bus binding
  never change while it is loaded. \<^verbatim>\<open>float\<close> values are reals: the code only multiplies
  them and tests their sign. \<^verbatim>\<open>ChannelId\<close> and \<^verbatim>\<open>WorldTime\<close> are C \<^verbatim>\<open>int\<close>s, read as
  integers (no claim below depends on their overflow).
\<close>

type_synonym ChannelId = int
type_synonym WorldTime = int

definition kChannelFadeOutRateMs :: int where
  "kChannelFadeOutRateMs = 10"

definition kAllChannels :: ChannelId where
  "kAllChannels = -1"

definition kStreamChannel :: ChannelId where
  "kStreamChannel = -100"

definition kInvalidChannel :: ChannelId where
  "kInvalidChannel = -1"

definition MIX_MAX_VOLUME :: int where
  "MIX_MAX_VOLUME = 128"

text \<open>
  The accessors of the generated \<^verbatim>\<open>SoundCollectionDef\<close> that the engine reads:
  \<^verbatim>\<open>gain()\<close>, \<^verbatim>\<open>priority()\<close>, \<^verbatim>\<open>loop()\<close>, \<^verbatim>\<open>stream()\<close>.
\<close>

record SoundCollectionDef =
  name :: string
  gain :: real
  priority :: real
  loop :: bool
  stream :: bool

text \<open>The two subclasses of \<^verbatim>\<open>SoundSource\<close> in \<^verbatim>\<open>sound.cpp\<close>, with the sample's gain.\<close>

datatype SourceKind = SoundBuffer | SoundStream

record SoundSource =
  kind :: SourceKind
  sample_gain :: real

record SoundCollection =
  GetSoundCollectionDef :: SoundCollectionDef
  bus :: "nat option"

record PlayingSound =
  sound_collection :: SoundCollection
  channel_id :: ChannelId
  start_time :: WorldTime

record BusDef =
  bus_name :: string
  bus_def_gain :: real

record Bus =
  bus_def :: BusDef
  child_buses :: "nat list"
  duck_buses :: "nat list"
  bus_gain :: real
  duck_gain :: real
  sound_counter :: int

text \<open>
  What the engine can observe and command of SDL\_mixer: the number of allocated buffer
  channels (\<^verbatim>\<open>Mix_AllocateChannels(-1)\<close>), which channels play (\<^verbatim>\<open>Mix_Playing(i)\<close>), whether
  music plays (\<^verbatim>\<open>Mix_PlayingMusic()\<close>), and the last volume the engine wrote to each
  channel and to the music.
\<close>

record Mixer =
  allocated_channels :: int
  channel_playing :: "ChannelId \<Rightarrow> bool"
  music_playing :: bool
  channel_volume :: "ChannelId \<Rightarrow> int"
  music_volume :: int

text \<open>
  Every way a call can leave the defined behaviour of the program: a failed \<^verbatim>\<open>assert\<close>,
  \<^verbatim>\<open>back()\<close> of an empty vector, a null bus dereferenced.
\<close>

datatype error = AssertionFailed | BackOfEmptyVector | NullBusDereferenced

section \<open>Priorities\<close>

text \<open>
  \<^verbatim>\<open>SoundCollectionDefComparitor\<close> (lines 235-244). \<^verbatim>\<open>b->stream() - a->stream()\<close>
  subtracts the two flags as integers.
\<close>

definition SoundCollectionDefComparitor :: "SoundCollectionDef \<Rightarrow> SoundCollectionDef \<Rightarrow> int" where
  "SoundCollectionDefComparitor a b =
     (if stream a \<or> stream b then of_bool (stream b) - of_bool (stream a)
      else if priority b - priority a < 0 then -1 else 1)"

text \<open>\<^verbatim>\<open>AudioEngine::PriorityComparitor\<close> (lines 249-258).\<close>

definition PriorityComparitor :: "PlayingSound \<Rightarrow> PlayingSound \<Rightarrow> int" where
  "PriorityComparitor a b =
     (let result = SoundCollectionDefComparitor
                     (GetSoundCollectionDef (sound_collection a))
                     (GetSoundCollectionDef (sound_collection b))
      in if result = 0 then start_time b - start_time a else result)"

text \<open>
  \<^verbatim>\<open>AudioEngine::PrioritizeChannels\<close> (lines 261-264) hands \<^verbatim>\<open>PriorityComparitor\<close> to
  \<^verbatim>\<open>std::sort\<close>. \<^verbatim>\<open>std::sort\<close> calls its third argument as a predicate, so the \<^verbatim>\<open>int\<close>
  that \<^verbatim>\<open>PriorityComparitor\<close> returns is converted to \<^verbatim>\<open>bool\<close>: every non-zero result
  is \<^verbatim>\<open>true\<close>. The library routine itself is the parameter \<open>std_sort\<close>.
\<close>

type_synonym 'a sort_routine = "('a \<Rightarrow> 'a \<Rightarrow> bool) \<Rightarrow> 'a list \<Rightarrow> 'a list"

definition sort_predicate :: "PlayingSound \<Rightarrow> PlayingSound \<Rightarrow> bool" where
  "sort_predicate a b = (PriorityComparitor a b \<noteq> 0)"

definition PrioritizeChannels :: "PlayingSound sort_routine \<Rightarrow> PlayingSound list \<Rightarrow> PlayingSound list" where
  "PrioritizeChannels std_sort sounds = std_sort sort_predicate sounds"

text \<open>
  One \<^verbatim>\<open>std::sort\<close>: the insertion sort that libstdc++ runs on a range of at most 16
  elements. An element that the predicate puts before the first one moves to the front;
  any other element walks down from the back while the predicate puts it before its
  left neighbour (\<open>unguarded_linear_insert\<close>, on the reversed prefix).
\<close>

fun unguarded_linear_insert :: "('a \<Rightarrow> 'a \<Rightarrow> bool) \<Rightarrow> 'a \<Rightarrow> 'a list \<Rightarrow> 'a list" where
  "unguarded_linear_insert lt v [] = [v]"
| "unguarded_linear_insert lt v (x # xs) =
     (if lt v x then x # unguarded_linear_insert lt v xs else v # x # xs)"

definition insertion_step :: "('a \<Rightarrow> 'a \<Rightarrow> bool) \<Rightarrow> 'a list \<Rightarrow> 'a \<Rightarrow> 'a list" where
  "insertion_step lt prefix v =
     (case prefix of
        [] \<Rightarrow> [v]
      | first # _ \<Rightarrow>
          if lt v first then v # prefix
          else rev (unguarded_linear_insert lt v (rev prefix)))"

definition insertion_sort :: "'a sort_routine" where
  "insertion_sort lt xs = foldl (insertion_step lt) [] xs"

text \<open>
  What the engine relies on from any \<^verbatim>\<open>std::sort\<close>: it rearranges the range and neither
  adds nor drops an element.
\<close>

definition rearranges :: "'a sort_routine \<Rightarrow> bool" where
  "rearranges std_sort = (\<forall>lt xs. mset (std_sort lt xs) = mset xs)"

section \<open>The mixer\<close>

text \<open>\<^verbatim>\<open>AllocatedChannelCount\<close> and \<^verbatim>\<open>PlayingChannelCount\<close> (lines 210-218).\<close>

definition AllocatedChannelCount :: "Mixer \<Rightarrow> int" where
  "AllocatedChannelCount m = allocated_channels m"

definition PlayingChannelCount :: "Mixer \<Rightarrow> int" where
  "PlayingChannelCount m =
     int (length (filter (channel_playing m) [0 .. allocated_channels m - 1]))"

text \<open>\<^verbatim>\<open>FindFreeChannel\<close> (lines 220-233).\<close>

definition FindFreeChannel :: "Mixer \<Rightarrow> bool \<Rightarrow> ChannelId" where
  "FindFreeChannel m is_stream =
     (if is_stream then kStreamChannel
      else
        let allocated = AllocatedChannelCount m in
        if PlayingChannelCount m < allocated then
          (case find (\<lambda>i. \<not> channel_playing m i) [0 .. allocated - 1] of
             Some i \<Rightarrow> i
           | None \<Rightarrow> kInvalidChannel)
        else kInvalidChannel)"

text \<open>\<^verbatim>\<open>AudioEngine::Halt\<close> (lines 302-309) and \<^verbatim>\<open>AudioEngine::Playing\<close> (lines 311-318).\<close>

definition Halt :: "Mixer \<Rightarrow> ChannelId \<Rightarrow> error + Mixer" where
  "Halt m cid =
     (if cid = kInvalidChannel then Inl AssertionFailed
      else if cid = kStreamChannel then Inr (m\<lparr>music_playing := False\<rparr>)
      else Inr (m\<lparr>channel_playing := (channel_playing m)(cid := False)\<rparr>))"

definition Playing :: "Mixer \<Rightarrow> ChannelId \<Rightarrow> error + bool" where
  "Playing m cid =
     (if cid = kInvalidChannel then Inl AssertionFailed
      else if cid = kStreamChannel then Inr (music_playing m)
      else Inr (channel_playing m cid))"

text \<open>A C cast from \<^verbatim>\<open>float\<close> to \<^verbatim>\<open>int\<close> drops the fraction.\<close>

definition float_to_int :: "real \<Rightarrow> int" where
  "float_to_int x = (if 0 \<le> x then \<lfloor>x\<rfloor> else \<lceil>x\<rceil>)"

text \<open>\<^verbatim>\<open>AudioEngine::SetChannelGain\<close> (lines 320-328).\<close>

definition SetChannelGain :: "Mixer \<Rightarrow> ChannelId \<Rightarrow> real \<Rightarrow> error + Mixer" where
  "SetChannelGain m cid volume =
     (if cid = kInvalidChannel then Inl AssertionFailed
      else
        let mix_volume = float_to_int (volume * real_of_int MIX_MAX_VOLUME) in
        if cid = kStreamChannel then Inr (m\<lparr>music_volume := mix_volume\<rparr>)
        else Inr (m\<lparr>channel_volume := (channel_volume m)(cid := mix_volume)\<rparr>))"


text \<open>
  \<^verbatim>\<open>SoundBuffer::SetGain\<close>, \<^verbatim>\<open>SoundStream::SetGain\<close>, \<^verbatim>\<open>SoundBuffer::Play\<close> and
  \<^verbatim>\<open>SoundStream::Play\<close> of \<^verbatim>\<open>sound.cpp\<close>. Whether SDL\_mixer accepts the play
  (\<^verbatim>\<open>Mix_PlayChannel\<close> other than -1, \<^verbatim>\<open>Mix_PlayMusic\<close> other than -1) is the input
  \<open>mixer_accepts\<close>; an accepted play leaves the channel, or the music, playing.
\<close>

definition SetGain :: "SoundSource \<Rightarrow> ChannelId \<Rightarrow> real \<Rightarrow> Mixer \<Rightarrow> Mixer" where
  "SetGain source cid g m =
     (let v = float_to_int (g * real_of_int MIX_MAX_VOLUME) in
      case kind source of
        SoundBuffer \<Rightarrow> m\<lparr>channel_volume := (channel_volume m)(cid := v)\<rparr>
      | SoundStream \<Rightarrow> m\<lparr>music_volume := v\<rparr>)"

definition Play :: "SoundSource \<Rightarrow> ChannelId \<Rightarrow> bool \<Rightarrow> bool \<Rightarrow> Mixer \<Rightarrow> bool \<times> Mixer" where
  "Play source cid looping mixer_accepts m =
     (if \<not> mixer_accepts then (False, m)
      else
        case kind source of
          SoundBuffer \<Rightarrow> (True, m\<lparr>channel_playing := (channel_playing m)(cid := True)\<rparr>)
        | SoundStream \<Rightarrow> (True, m\<lparr>music_playing := True\<rparr>))"

text \<open>\<^verbatim>\<open>AudioEngine::PlaySource\<close> (lines 286-296).\<close>

definition PlaySource :: "SoundSource \<Rightarrow> ChannelId \<Rightarrow> SoundCollection \<Rightarrow> bool \<Rightarrow> Mixer \<Rightarrow> bool \<times> Mixer" where
  "PlaySource source cid collection mixer_accepts m =
     (let def = GetSoundCollectionDef collection;
          g = sample_gain source * gain def;
          m1 = SetGain source cid g m
      in Play source cid (loop def) mixer_accepts m1)"

section \<open>PlayingSound and the bus counters\<close>

text \<open>
  Modelled from the spec: \<^verbatim>\<open>Bus::IncrementSoundCounter\<close> and
  \<^verbatim>\<open>Bus::DecrementSoundCounter\<close> (\<^verbatim>\<open>bus.h\<close> is not among the sources) add one to and take
  one from the bus's \<open>sound_counter\<close>.
\<close>

definition IncrementSoundCounter :: "Bus \<Rightarrow> Bus" where
  "IncrementSoundCounter b = b\<lparr>sound_counter := sound_counter b + 1\<rparr>"

definition DecrementSoundCounter :: "Bus \<Rightarrow> Bus" where
  "DecrementSoundCounter b = b\<lparr>sound_counter := sound_counter b - 1\<rparr>"

text \<open>
  The guarded call \<^verbatim>\<open>if (bus) bus->IncrementSoundCounter()\<close> that each special member
  makes, on the bus list.
\<close>

definition increment_bus :: "nat option \<Rightarrow> Bus list \<Rightarrow> Bus list" where
  "increment_bus b bs =
     (case b of None \<Rightarrow> bs | Some i \<Rightarrow> bs[i := IncrementSoundCounter (bs ! i)])"

definition decrement_bus :: "nat option \<Rightarrow> Bus list \<Rightarrow> Bus list" where
  "decrement_bus b bs =
     (case b of None \<Rightarrow> bs | Some i \<Rightarrow> bs[i := DecrementSoundCounter (bs ! i)])"

text \<open>
  The four special members of \<^verbatim>\<open>AudioEngine::PlayingSound\<close> (lines 43-85): each returns
  the object it leaves and the buses with their counters.
\<close>

definition PlayingSound_construct ::
    "SoundCollection \<Rightarrow> ChannelId \<Rightarrow> WorldTime \<Rightarrow> Bus list \<Rightarrow> PlayingSound \<times> Bus list" where
  "PlayingSound_construct collection cid time bs =
     (\<lparr>sound_collection = collection, channel_id = cid, start_time = time\<rparr>,
      increment_bus (bus collection) bs)"

definition PlayingSound_copy :: "PlayingSound \<Rightarrow> Bus list \<Rightarrow> PlayingSound \<times> Bus list" where
  "PlayingSound_copy other bs =
     (\<lparr>sound_collection = sound_collection other, channel_id = channel_id other,
       start_time = start_time other\<rparr>,
      increment_bus (bus (sound_collection other)) bs)"

definition PlayingSound_destroy :: "PlayingSound \<Rightarrow> Bus list \<Rightarrow> Bus list" where
  "PlayingSound_destroy this bs = decrement_bus (bus (sound_collection this)) bs"

definition PlayingSound_assign :: "PlayingSound \<Rightarrow> PlayingSound \<Rightarrow> Bus list \<Rightarrow> PlayingSound \<times> Bus list" where
  "PlayingSound_assign this other bs =
     (let buses1 = decrement_bus (bus (sound_collection this)) bs;
          buses2 = increment_bus (bus (sound_collection other)) buses1
      in (\<lparr>sound_collection = sound_collection other, channel_id = channel_id other,
           start_time = start_time other\<rparr>, buses2))"

section \<open>The vector of playing sounds\<close>

text \<open>
  \<^verbatim>\<open>std::vector\<close> runs the special members of its elements. \<^verbatim>\<open>push_back\<close>
  copy-constructs its argument at the end; \<^verbatim>\<open>pop_back\<close> destroys the last element.
\<close>

definition vector_push_back :: "PlayingSound list \<Rightarrow> PlayingSound \<Rightarrow> Bus list \<Rightarrow> PlayingSound list \<times> Bus list" where
  "vector_push_back v x bs =
     (let (e, buses1) = PlayingSound_copy x bs in (v @ [e], buses1))"

definition vector_pop_back :: "PlayingSound list \<Rightarrow> Bus list \<Rightarrow> PlayingSound list \<times> Bus list" where
  "vector_pop_back v bs = (butlast v, PlayingSound_destroy (last v) bs)"

text \<open>
  \<^verbatim>\<open>std::remove_if\<close> finds the first element to remove and then assigns every later
  element that stays to the next free slot. The vector is \<open>kept @ gap @ rest\<close>: \<open>kept\<close> are
  the slots already final, \<open>gap\<close> the slots whose value has been moved on or is to be
  removed (an assignment copies, so the source slot keeps its value), \<open>rest\<close> the
  elements not yet read. It returns the slots that stay and the tail that
  \<^verbatim>\<open>erase\<close> then destroys.
\<close>

fun remove_if_shift ::
    "(PlayingSound \<Rightarrow> bool) \<Rightarrow> PlayingSound list \<Rightarrow> PlayingSound list \<Rightarrow> PlayingSound list \<Rightarrow> Bus list
      \<Rightarrow> PlayingSound list \<times> PlayingSound list \<times> Bus list" where
  "remove_if_shift p kept gap [] bs = (kept, gap, bs)"
| "remove_if_shift p kept gap (x # rest) bs =
     (if p x then remove_if_shift p kept (gap @ [x]) rest bs
      else
        case gap of
          [] \<Rightarrow> remove_if_shift p (kept @ [x]) [] rest bs
        | g # gs \<Rightarrow>
            let (y, buses1) = PlayingSound_assign g x bs
            in remove_if_shift p (kept @ [y]) (gs @ [x]) rest buses1)"

definition remove_if :: "(PlayingSound \<Rightarrow> bool) \<Rightarrow> PlayingSound list \<Rightarrow> Bus list
      \<Rightarrow> PlayingSound list \<times> PlayingSound list \<times> Bus list" where
  "remove_if p v bs =
     (case dropWhile (\<lambda>x. \<not> p x) v of
        [] \<Rightarrow> (v, [], bs)
      | g # rest \<Rightarrow> remove_if_shift p (takeWhile (\<lambda>x. \<not> p x) v) [g] rest bs)"

definition erase_remove_if :: "(PlayingSound \<Rightarrow> bool) \<Rightarrow> PlayingSound list \<Rightarrow> Bus list
      \<Rightarrow> PlayingSound list \<times> Bus list" where
  "erase_remove_if p v bs =
     (let (kept, tail, buses1) = remove_if p v bs
      in (kept, fold PlayingSound_destroy tail buses1))"

section \<open>The engine\<close>

text \<open>
  Modelled from the spec: \<^verbatim>\<open>RefCounter\<close> and \<^verbatim>\<open>SoundBank\<close> (\<^verbatim>\<open>ref_counter.h\<close> and
  \<^verbatim>\<open>sound_bank.h\<close> are not among the sources). A bank holds a reference counter that
  starts at zero and the names of the collections it loaded; the engine's collection map
  holds each collection once, with the collection's own reference counter.
\<close>

record SoundBank =
  ref_counter :: int
  bank_collections :: "string list"

type_synonym collection_map = "string \<rightharpoonup> SoundCollection \<times> int"

record AudioEngine =
  buses :: "Bus list"
  master_bus :: "nat option"
  mute :: bool
  master_gain :: real
  playing_sounds :: "PlayingSound list"
  world_time :: WorldTime
  mixer :: Mixer
  sound_bank_map :: "string \<rightharpoonup> SoundBank"
  collection_map :: collection_map

text \<open>
  \<^verbatim>\<open>AudioEngine::EraseFinishedSounds\<close> (lines 267-274). The predicate calls
  \<^verbatim>\<open>AudioEngine::Playing\<close> once on every entry, whose \<^verbatim>\<open>assert\<close> fails on the invalid
  channel.
\<close>

definition EraseFinishedSounds :: "AudioEngine \<Rightarrow> error + AudioEngine" where
  "EraseFinishedSounds e =
     (if list_ex (\<lambda>playing_sound. channel_id playing_sound = kInvalidChannel) (playing_sounds e)
      then Inl AssertionFailed
      else
        let (v, buses1) =
              erase_remove_if
                (\<lambda>playing_sound. Playing (mixer e) (channel_id playing_sound) = Inr False)
                (playing_sounds e) (buses e)
        in Inr (e\<lparr>playing_sounds := v, buses := buses1\<rparr>))"

text \<open>\<^verbatim>\<open>AudioEngine::EraseStreams\<close> (lines 277-284).\<close>

definition EraseStreams :: "AudioEngine \<Rightarrow> AudioEngine" where
  "EraseStreams e =
     (let (v, buses1) =
            erase_remove_if (\<lambda>playing_sound. channel_id playing_sound = kStreamChannel)
              (playing_sounds e) (buses e)
      in e\<lparr>playing_sounds := v, buses := buses1\<rparr>)"

text \<open>
  The end of \<^verbatim>\<open>AudioEngine::PlaySound\<close> (lines 372-381), which every path that has a
  channel reaches: the \<^verbatim>\<open>assert\<close>, the attempt to play, and
  \<^verbatim>\<open>playing_sounds_.push_back(PlayingSound(collection, new_channel, world_time_))\<close>, which
  constructs a temporary, copies it into the vector and destroys the temporary.
  \<open>source\<close> is what \<^verbatim>\<open>collection->Select()\<close> returns.
\<close>

definition PlaySound_attempt ::
    "SoundSource \<Rightarrow> bool \<Rightarrow> SoundCollection \<Rightarrow> ChannelId \<Rightarrow> AudioEngine \<Rightarrow> error + ChannelId \<times> AudioEngine" where
  "PlaySound_attempt source mixer_accepts collection new_channel e =
     (if new_channel = kInvalidChannel then Inl AssertionFailed
      else
        let (played, m) = PlaySource source new_channel collection mixer_accepts (mixer e) in
        if played then
          (let (temporary, buses1) =
                 PlayingSound_construct collection new_channel (world_time e) (buses e);
               (v, buses2) = vector_push_back (playing_sounds e) temporary buses1;
               buses3 = PlayingSound_destroy temporary buses2
           in Inr (new_channel, e\<lparr>mixer := m, playing_sounds := v, buses := buses3\<rparr>))
        else Inr (new_channel, e\<lparr>mixer := m\<rparr>))"

text \<open>
  \<^verbatim>\<open>AudioEngine::PlaySound(SoundHandle)\<close> (lines 330-382). A \<^verbatim>\<open>SoundHandle\<close> is a
  \<^verbatim>\<open>SoundCollection*\<close>. \<^verbatim>\<open>playing_sounds_.back()\<close> of an empty vector is undefined.
\<close>

definition PlaySound ::
    "PlayingSound sort_routine \<Rightarrow> SoundSource \<Rightarrow> bool \<Rightarrow> SoundCollection option \<Rightarrow> AudioEngine
      \<Rightarrow> error + ChannelId \<times> AudioEngine" where
  "PlaySound std_sort source mixer_accepts sound_handle e =
     (case sound_handle of
        None \<Rightarrow> Inr (kInvalidChannel, e)
      | Some collection \<Rightarrow>
         (case EraseFinishedSounds e of
            Inl err \<Rightarrow> Inl err
          | Inr e1 \<Rightarrow>
              let is_stream = stream (GetSoundCollectionDef collection);
                  new_channel = FindFreeChannel (mixer e1) is_stream
              in
              if new_channel = kInvalidChannel then
                (let sorted = PrioritizeChannels std_sort (playing_sounds e1) in
                 if sorted = [] then Inl BackOfEmptyVector
                 else
                   let new_def = GetSoundCollectionDef collection;
                       back_def = GetSoundCollectionDef (sound_collection (last sorted))
                   in
                   if SoundCollectionDefComparitor new_def back_def < 0 then
                     (let new_channel = channel_id (last sorted) in
                      case Halt (mixer e1) new_channel of
                        Inl err \<Rightarrow> Inl err
                      | Inr m \<Rightarrow>
                          let (v, buses1) = vector_pop_back sorted (buses e1)
                          in PlaySound_attempt source mixer_accepts collection new_channel
                               (e1\<lparr>playing_sounds := v, buses := buses1, mixer := m\<rparr>))
                   else Inr (kInvalidChannel, e1\<lparr>playing_sounds := sorted\<rparr>))
              else if new_channel = kStreamChannel then
                (case Playing (mixer e1) new_channel of
                   Inl err \<Rightarrow> Inl err
                 | Inr True \<Rightarrow>
                     (case Halt (mixer e1) new_channel of
                        Inl err \<Rightarrow> Inl err
                      | Inr m \<Rightarrow>
                          PlaySound_attempt source mixer_accepts collection new_channel
                            (EraseStreams (e1\<lparr>mixer := m\<rparr>)))
                 | Inr False \<Rightarrow>
                     PlaySound_attempt source mixer_accepts collection new_channel e1)
              else PlaySound_attempt source mixer_accepts collection new_channel e1))"

text \<open>\<^verbatim>\<open>AudioEngine::GetSoundHandle\<close> (lines 396-404).\<close>

definition GetSoundHandle :: "AudioEngine \<Rightarrow> string \<Rightarrow> SoundCollection option" where
  "GetSoundHandle e sound_name = map_option fst (collection_map e sound_name)"


section \<open>Bus gains and the frame\<close>

text \<open>
  Modelled from the spec: \<^verbatim>\<open>Bus::ResetDuckGain\<close> and \<^verbatim>\<open>Bus::UpdateDuckGain\<close>
  (\<^verbatim>\<open>bus.cpp\<close> is not among the sources), steps 2 to 4 of the frame. A bus's duck target
  is 0 when a bus with a positive \<open>sound_counter\<close> lists it among its duck bs, and 1
  otherwise; the duck gain moves towards the target by at most \<open>rate\<close> per millisecond
  and stays within 0 and 1.
\<close>

definition duck_target :: "Bus list \<Rightarrow> nat \<Rightarrow> real" where
  "duck_target bs j =
     (if list_ex (\<lambda>b. 0 < sound_counter b \<and> j \<in> set (duck_buses b)) bs then 0 else 1)"

definition approach :: "real \<Rightarrow> real \<Rightarrow> real \<Rightarrow> real" where
  "approach current target step =
     (if current < target then min target (current + step) else max target (current - step))"

definition UpdateDuckGain :: "real \<Rightarrow> WorldTime \<Rightarrow> Bus list \<Rightarrow> Bus list" where
  "UpdateDuckGain rate delta_time bs =
     map (\<lambda>j. (bs ! j)\<lparr>duck_gain :=
                 max 0 (min 1 (approach (duck_gain (bs ! j)) (duck_target bs j)
                                  (rate * real_of_int delta_time)))\<rparr>)
       [0 ..< length bs]"

text \<open>
  Modelled from the spec: \<^verbatim>\<open>Bus::UpdateGain\<close> (\<^verbatim>\<open>bus.cpp\<close> is not among the sources),
  step 5 of the frame: set the bus's gain to parent gain times definition gain times
  duck gain, then recurse into the children with that gain. Nothing in the engine's
  initialisation rules out a cycle among the children, on which the recursion does not
  end: the first argument bounds the depth of the recursion, and \<open>None\<close> is the call
  that needs more.
\<close>

fun UpdateGain :: "nat \<Rightarrow> nat \<Rightarrow> real \<Rightarrow> Bus list \<Rightarrow> Bus list option" where
  "UpdateGain 0 i parent_gain bs = None"
| "UpdateGain (Suc depth) i parent_gain bs =
     (if length bs \<le> i then Some bs
      else
        let b = bs ! i;
            g = parent_gain * bus_def_gain (bus_def b) * duck_gain b
        in fold (\<lambda>child r. case r of None \<Rightarrow> None
                             | Some buses1 \<Rightarrow> UpdateGain depth child g buses1)
             (child_buses b) (Some (bs[i := b\<lparr>bus_gain := g\<rparr>])))"

text \<open>
  The last loop of \<^verbatim>\<open>AudioEngine::AdvanceFrame\<close> (lines 457-461):
  \<^verbatim>\<open>sound_collection->bus()->gain()\<close> dereferences the collection's bus.
\<close>

fun push_gains :: "Bus list \<Rightarrow> PlayingSound list \<Rightarrow> Mixer \<Rightarrow> error + Mixer" where
  "push_gains bs [] m = Inr m"
| "push_gains bs (playing_sound # rest) m =
     (case bus (sound_collection playing_sound) of
        None \<Rightarrow> Inl NullBusDereferenced
      | Some b \<Rightarrow>
          (case SetChannelGain m (channel_id playing_sound) (bus_gain (bs ! b)) of
             Inl err \<Rightarrow> Inl err
           | Inr m1 \<Rightarrow> push_gains bs rest m1))"

text \<open>
  \<^verbatim>\<open>AudioEngine::AdvanceFrame\<close> (lines 445-462). \<open>None\<close>: the gain update did not end
  within \<open>depth\<close>.
\<close>

definition AdvanceFrame :: "nat \<Rightarrow> real \<Rightarrow> WorldTime \<Rightarrow> AudioEngine \<Rightarrow> (error + AudioEngine) option" where
  "AdvanceFrame depth rate new_world_time e =
     (let delta_time = new_world_time - world_time e;
          buses1 = UpdateDuckGain rate delta_time (buses e);
          updated = (case master_bus e of
                       None \<Rightarrow> Some buses1
                     | Some master \<Rightarrow>
                         UpdateGain depth master (if mute e then 0 else master_gain e) buses1)
      in case updated of
           None \<Rightarrow> None
         | Some buses2 \<Rightarrow>
             Some (case push_gains buses2 (playing_sounds e) (mixer e) of
                     Inl err \<Rightarrow> Inl err
                   | Inr m \<Rightarrow> Inr (e\<lparr>world_time := new_world_time, buses := buses2, mixer := m\<rparr>)))"

text \<open>
  A chain of buses: every bus is a bus of the engine and every next bus is a child of
  the one before. \<open>chain_gain\<close> is what \<open>UpdateGain\<close> multiplies along it.
\<close>

fun is_chain :: "Bus list \<Rightarrow> nat list \<Rightarrow> bool" where
  "is_chain bs [] = False"
| "is_chain bs [i] = (i < length bs)"
| "is_chain bs (i # j # rest) =
     (i < length bs \<and> j \<in> set (child_buses (bs ! i)) \<and> is_chain bs (j # rest))"

definition chain_from_to :: "Bus list \<Rightarrow> nat \<Rightarrow> nat \<Rightarrow> nat list \<Rightarrow> bool" where
  "chain_from_to bs i x chain = (is_chain bs chain \<and> hd chain = i \<and> last chain = x)"

definition chain_gain :: "Bus list \<Rightarrow> real \<Rightarrow> nat list \<Rightarrow> real" where
  "chain_gain bs parent_gain chain =
     foldl (\<lambda>g i. g * bus_def_gain (bus_def (bs ! i)) * duck_gain (bs ! i)) parent_gain chain"


text \<open>The buses with their gains set aside: what \<open>UpdateGain\<close> does not write.\<close>

definition shape :: "Bus list \<Rightarrow> Bus list" where
  "shape bs = map (\<lambda>b. b\<lparr>bus_gain := 0\<rparr>) bs"

section \<open>Sound banks\<close>

text \<open>
  \<^verbatim>\<open>AudioEngine::LoadSoundBank\<close> (lines 151-165). \<^verbatim>\<open>SoundBank::Initialize\<close> is the
  parameter \<open>Initialize\<close>: from the bank's file name and the engine's collection map it
  gives its success, the collections the bank holds and the collection map it leaves.
\<close>

type_synonym bank_initializer = "string \<Rightarrow> collection_map \<Rightarrow> bool \<times> string list \<times> collection_map"

definition LoadSoundBank :: "bank_initializer \<Rightarrow> string \<Rightarrow> AudioEngine \<Rightarrow> bool \<times> AudioEngine" where
  "LoadSoundBank Initialize filename e =
     (case sound_bank_map e filename of
        None \<Rightarrow>
          let (success, loaded, collections1) = Initialize filename (collection_map e);
              sound_bank = \<lparr>ref_counter = 0, bank_collections = loaded\<rparr>;
              sound_bank1 = (if success then sound_bank\<lparr>ref_counter := ref_counter sound_bank + 1\<rparr>
                             else sound_bank)
          in (success, e\<lparr>sound_bank_map := (sound_bank_map e)(filename \<mapsto> sound_bank1),
                          collection_map := collections1\<rparr>)
      | Some sound_bank \<Rightarrow>
          (True, e\<lparr>sound_bank_map := (sound_bank_map e)
                     (filename \<mapsto> sound_bank\<lparr>ref_counter := ref_counter sound_bank + 1\<rparr>)\<rparr>))"

text \<open>
  \<^verbatim>\<open>AudioEngine::UnloadSoundBank\<close> (lines 167-179). \<^verbatim>\<open>SoundBank::Deinitialize\<close> is the
  parameter \<open>Deinitialize\<close>, from the bank's collections and the collection map to the
  collection map it leaves.
\<close>

type_synonym bank_deinitializer = "string list \<Rightarrow> collection_map \<Rightarrow> collection_map"

definition UnloadSoundBank :: "bank_deinitializer \<Rightarrow> string \<Rightarrow> AudioEngine \<Rightarrow> error + AudioEngine" where
  "UnloadSoundBank Deinitialize filename e =
     (case sound_bank_map e filename of
        None \<Rightarrow> Inl AssertionFailed
      | Some sound_bank \<Rightarrow>
          let sound_bank1 = sound_bank\<lparr>ref_counter := ref_counter sound_bank - 1\<rparr>;
              e1 = e\<lparr>sound_bank_map := (sound_bank_map e)(filename \<mapsto> sound_bank1)\<rparr>
          in if ref_counter sound_bank1 = 0
             then Inr (e1\<lparr>collection_map := Deinitialize (bank_collections sound_bank1) (collection_map e1)\<rparr>)
             else Inr e1)"

text \<open>
  Modelled from the spec: \<^verbatim>\<open>SoundBank::Initialize\<close> and \<^verbatim>\<open>SoundBank::Deinitialize\<close>
  (\<^verbatim>\<open>sound_bank.cpp\<close> is not among the sources). \<open>files\<close> is what can be loaded: for a
  bank's file name, the collections it lists, each with its name. Initialising loads
  each listed collection, registers it in the collection map if it is not there and
  adds one to its reference counter; deinitialising takes one from the counter of each
  of the bank's collections and removes a collection whose counter reaches zero.
\<close>

definition load_collection :: "string \<times> SoundCollection \<Rightarrow> collection_map \<Rightarrow> collection_map" where
  "load_collection entry collections =
     (case collections (fst entry) of
        None \<Rightarrow> collections(fst entry \<mapsto> (snd entry, 1))
      | Some (collection, counter) \<Rightarrow> collections(fst entry \<mapsto> (collection, counter + 1)))"

definition SoundBank_Initialize :: "(string \<rightharpoonup> (string \<times> SoundCollection) list) \<Rightarrow> bank_initializer" where
  "SoundBank_Initialize files filename collections =
     (case files filename of
        None \<Rightarrow> (False, [], collections)
      | Some listed \<Rightarrow> (True, map fst listed, fold load_collection listed collections))"

definition release_collection :: "string \<Rightarrow> collection_map \<Rightarrow> collection_map" where
  "release_collection n collections =
     (case collections n of
        None \<Rightarrow> collections
      | Some (collection, counter) \<Rightarrow>
          if counter - 1 = 0 then collections(n := None)
          else collections(n \<mapsto> (collection, counter - 1)))"

definition SoundBank_Deinitialize :: bank_deinitializer where
  "SoundBank_Deinitialize held collections = fold release_collection held collections"

section \<open>The channel handle\<close>

text \<open>
  Modelled from the spec: \<^verbatim>\<open>ChannelInternalState\<close> (\<^verbatim>\<open>channel_internal_state.h\<close> is not
  among the sources) holds the voice's gain; \<^verbatim>\<open>Halt\<close> stops the voice at once and
  \<^verbatim>\<open>FadeOut\<close> stops it with a fade of the given milliseconds.
\<close>

datatype voice = Voice_playing | Voice_halted | Voice_fading_out int

record ChannelInternalState =
  Gain :: real
  voice :: voice

definition ChannelInternalState_Halt :: "ChannelInternalState \<Rightarrow> ChannelInternalState" where
  "ChannelInternalState_Halt s = s\<lparr>voice := Voice_halted\<rparr>"

definition ChannelInternalState_FadeOut :: "int \<Rightarrow> ChannelInternalState \<Rightarrow> ChannelInternalState" where
  "ChannelInternalState_FadeOut milliseconds s = s\<lparr>voice := Voice_fading_out milliseconds\<rparr>"

text \<open>
  \<^verbatim>\<open>channel.cpp\<close>: a \<^verbatim>\<open>Channel\<close> is a pointer to its state, \<^verbatim>\<open>Valid\<close> when not null.
\<close>

type_synonym Channel = "ChannelInternalState option"

definition kFadeOutDurationMs :: int where
  "kFadeOutDurationMs = 10"

definition Valid :: "Channel \<Rightarrow> bool" where
  "Valid state = (state \<noteq> None)"

definition Stop :: "Channel \<Rightarrow> error + Channel" where
  "Stop state =
     (case state of
        None \<Rightarrow> Inl AssertionFailed
      | Some s \<Rightarrow>
          if Gain s = 0 then Inr (Some (ChannelInternalState_Halt s))
          else Inr (Some (ChannelInternalState_FadeOut kFadeOutDurationMs s)))"

section \<open>Accounting\<close>

text \<open>
  The number of records among \<open>sounds\<close> whose collection is bound to bus \<open>i\<close>, and the
  invariant of the spec: every bus's counter is the number of entries bound to it.
\<close>

definition bound_to :: "nat \<Rightarrow> PlayingSound list \<Rightarrow> int" where
  "bound_to i sounds = int (length (filter (\<lambda>s. bus (sound_collection s) = Some i) sounds))"

definition accounted :: "Bus list \<Rightarrow> PlayingSound list \<Rightarrow> bool" where
  "accounted bs sounds =
     list_all (\<lambda>i. sound_counter (bs ! i) = bound_to i sounds) [0 ..< length bs]"

text \<open>The bus list with \<open>d i\<close> added to the counter of each bus \<open>i\<close>.\<close>

definition adjust_counters :: "(nat \<Rightarrow> int) \<Rightarrow> Bus list \<Rightarrow> Bus list" where
  "adjust_counters d bs =
     map (\<lambda>i. (bs ! i)\<lparr>sound_counter := sound_counter (bs ! i) + d i\<rparr>) [0 ..< length bs]"


section \<open>Example data\<close>

definition example_effect :: "string \<Rightarrow> real \<Rightarrow> SoundCollection" where
  "example_effect n p =
     \<lparr>GetSoundCollectionDef = \<lparr>name = n, gain = 1, priority = p, loop = False, stream = False\<rparr>,
      bus = Some 0\<rparr>"

definition example_music :: "string \<Rightarrow> SoundCollection" where
  "example_music n =
     \<lparr>GetSoundCollectionDef = \<lparr>name = n, gain = 1, priority = 1, loop = True, stream = True\<rparr>,
      bus = Some 0\<rparr>"

definition example_sound :: "SoundCollection \<Rightarrow> ChannelId \<Rightarrow> WorldTime \<Rightarrow> PlayingSound" where
  "example_sound collection cid time =
     \<lparr>sound_collection = collection, channel_id = cid, start_time = time\<rparr>"

definition example_buffer :: SoundSource where
  "example_buffer = \<lparr>kind = SoundBuffer, sample_gain = 1\<rparr>"


definition example_bus :: "string \<Rightarrow> real \<Rightarrow> nat list \<Rightarrow> real \<Rightarrow> int \<Rightarrow> Bus" where
  "example_bus n g children duck counter =
     \<lparr>bus_def = \<lparr>bus_name = n, bus_def_gain = g\<rparr>, child_buses = children, duck_buses = [],
      bus_gain = 1, duck_gain = duck, sound_counter = counter\<rparr>"

definition example_mixer :: "int \<Rightarrow> ChannelId list \<Rightarrow> bool \<Rightarrow> Mixer" where
  "example_mixer allocated playing music =
     \<lparr>allocated_channels = allocated, channel_playing = (\<lambda>i. i \<in> set playing),
      music_playing = music, channel_volume = (\<lambda>i. 0), music_volume = 0\<rparr>"

definition example_engine :: "PlayingSound list \<Rightarrow> Mixer \<Rightarrow> AudioEngine" where
  "example_engine sounds m =
     \<lparr>buses = [example_bus ''master'' 1 [] 1 (int (length sounds))], master_bus = Some 0,
      mute = False, master_gain = 1, playing_sounds = sounds, world_time = 7, mixer = m,
      sound_bank_map = Map.empty, collection_map = Map.empty\<rparr>"

text \<open>
  The reference counter that the collection map holds for a name: \<open>k\<close> references are
  either no entry and \<open>k = 0\<close>, or an entry with the positive counter \<open>k\<close>.
\<close>

definition has_refs :: "collection_map \<Rightarrow> string \<Rightarrow> int \<Rightarrow> bool" where
  "has_refs collections n k =
     (case collections n of None \<Rightarrow> k = 0 | Some (collection, counter) \<Rightarrow> counter = k \<and> 1 \<le> k)"

definition example_files :: "string \<rightharpoonup> (string \<times> SoundCollection) list" where
  "example_files =
     [''a.bank'' \<mapsto> [(''explosion'', example_effect ''explosion'' 5)],
      ''b.bank'' \<mapsto> [(''explosion'', example_effect ''explosion'' 5),
                        (''theme'', example_music ''theme'')]]"




section \<open>Properties\<close>

lemma mset_unguarded_linear_insert:
  "mset (unguarded_linear_insert lt v xs) = add_mset v (mset xs)"
  by (induction xs) simp_all

lemma mset_insertion_step:
  "mset (insertion_step lt prefix v) = add_mset v (mset prefix)"
  by (cases prefix) (simp_all add: insertion_step_def mset_unguarded_linear_insert)

lemma mset_foldl_insertion_step:
  "mset (foldl (insertion_step lt) acc xs) = mset acc + mset xs"
  by (induction xs arbitrary: acc) (simp_all add: mset_insertion_step)

lemma rearranges_insertion_sort: "rearranges insertion_sort"
  by (simp add: rearranges_def insertion_sort_def mset_foldl_insertion_step)

lemma rearranges_Nil: "rearranges std_sort \<Longrightarrow> std_sort lt [] = []"
  by (metis rearranges_def mset_zero_iff)

lemma rearranges_singleton: "rearranges std_sort \<Longrightarrow> std_sort lt [x] = [x]"
  by (metis rearranges_def mset_single_iff_right mset.simps(1) mset.simps(2))

lemma rearranges_set: "rearranges std_sort \<Longrightarrow> set (std_sort lt xs) = set xs"
  by (metis rearranges_def set_mset_mset)

lemma rearranges_length: "rearranges std_sort \<Longrightarrow> length (std_sort lt xs) = length xs"
  by (metis rearranges_def size_mset)

lemma length_adjust_counters: "length (adjust_counters d bs) = length bs"
  by (simp add: adjust_counters_def)

lemma nth_adjust_counters:
  "i < length bs \<Longrightarrow>
   adjust_counters d bs ! i = (bs ! i)\<lparr>sound_counter := sound_counter (bs ! i) + d i\<rparr>"
  by (simp add: adjust_counters_def)

lemma adjust_counters_cong:
  "(\<And>i. i < length bs \<Longrightarrow> d i = d' i) \<Longrightarrow> adjust_counters d bs = adjust_counters d' bs"
  by (simp add: adjust_counters_def)

lemma adjust_counters_adjust:
  "adjust_counters d (adjust_counters d' bs) = adjust_counters (\<lambda>i. d' i + d i) bs"
  by (rule nth_equalityI) (simp_all add: length_adjust_counters nth_adjust_counters)

lemma adjust_counters_zero: "adjust_counters (\<lambda>i. 0) bs = bs"
  by (rule nth_equalityI) (simp_all add: length_adjust_counters nth_adjust_counters)

lemma increment_bus_adjust:
  "increment_bus x bs = adjust_counters (\<lambda>i. if x = Some i then 1 else 0) bs"
proof (cases x)
  case None
  then show ?thesis by (simp add: increment_bus_def adjust_counters_zero)
next
  case (Some j)
  show ?thesis
    by (rule nth_equalityI)
       (auto simp add: Some increment_bus_def IncrementSoundCounter_def length_adjust_counters
          nth_adjust_counters nth_list_update)
qed

lemma decrement_bus_adjust:
  "decrement_bus x bs = adjust_counters (\<lambda>i. if x = Some i then - 1 else 0) bs"
proof (cases x)
  case None
  then show ?thesis by (simp add: decrement_bus_def adjust_counters_zero)
next
  case (Some j)
  show ?thesis
    by (rule nth_equalityI)
       (auto simp add: Some decrement_bus_def DecrementSoundCounter_def length_adjust_counters
          nth_adjust_counters nth_list_update)
qed

lemma bound_to_Nil: "bound_to i [] = 0"
  by (simp add: bound_to_def)

lemma bound_to_Cons:
  "bound_to i (s # sounds) = (if bus (sound_collection s) = Some i then 1 else 0) + bound_to i sounds"
  by (simp add: bound_to_def)

lemma bound_to_append: "bound_to i (xs @ ys) = bound_to i xs + bound_to i ys"
  by (simp add: bound_to_def)

lemma PlayingSound_copy_eq:
  "PlayingSound_copy other bs =
     (other, adjust_counters (\<lambda>i. if bus (sound_collection other) = Some i then 1 else 0) bs)"
  by (simp add: PlayingSound_copy_def increment_bus_adjust)

lemma PlayingSound_destroy_eq:
  "PlayingSound_destroy this bs =
     adjust_counters (\<lambda>i. - bound_to i [this]) bs"
  by (auto simp add: PlayingSound_destroy_def decrement_bus_adjust bound_to_Cons bound_to_Nil
        intro!: adjust_counters_cong)

lemma PlayingSound_assign_eq:
  "PlayingSound_assign this other bs =
     (other, adjust_counters (\<lambda>i. bound_to i [other] - bound_to i [this]) bs)"
  by (auto simp add: PlayingSound_assign_def decrement_bus_adjust increment_bus_adjust
        adjust_counters_adjust bound_to_Cons bound_to_Nil Let_def intro!: adjust_counters_cong)

lemma fold_PlayingSound_destroy:
  "fold PlayingSound_destroy xs bs = adjust_counters (\<lambda>i. - bound_to i xs) bs"
proof (induction xs arbitrary: bs)
  case Nil
  show ?case by (simp add: bound_to_Nil adjust_counters_zero)
next
  case (Cons x xs)
  have "fold PlayingSound_destroy (x # xs) bs =
          fold PlayingSound_destroy xs (PlayingSound_destroy x bs)"
    by simp
  also have "\<dots> = adjust_counters (\<lambda>i. - bound_to i xs) (PlayingSound_destroy x bs)"
    by (rule Cons.IH)
  also have "\<dots> = adjust_counters (\<lambda>i. - bound_to i (x # xs)) bs"
    by (auto simp add: PlayingSound_destroy_eq adjust_counters_adjust bound_to_Cons bound_to_Nil
          intro!: adjust_counters_cong)
  finally show ?case .
qed

lemma remove_if_shift_eq:
  "remove_if_shift p kept gap rest bs = (kept', gap', bs') \<Longrightarrow>
   kept' = kept @ filter (\<lambda>x. \<not> p x) rest \<and>
   bs' = adjust_counters (\<lambda>i. bound_to i (kept' @ gap') - bound_to i (kept @ gap @ rest)) bs"
proof (induction p kept gap rest bs arbitrary: kept' gap' bs' rule: remove_if_shift.induct)
  case (1 p kept gap bs)
  then show ?case by (simp add: adjust_counters_zero)
next
  case (2 p kept gap x rest bs)
  show ?case
  proof (cases "p x")
    case True
    with 2 show ?thesis by simp
  next
    case False
    show ?thesis
    proof (cases gap)
      case Nil
      with False 2 show ?thesis by simp
    next
      case (Cons g gs)
      from False Cons "2.prems"
      have run: "remove_if_shift p (kept @ [x]) (gs @ [x]) rest
                   (adjust_counters (\<lambda>i. bound_to i [x] - bound_to i [g]) bs) = (kept', gap', bs')"
        by (simp add: PlayingSound_assign_eq)
      from "2.IH"(3) [OF False Cons refl PlayingSound_assign_eq [symmetric] run]
      have "kept' = (kept @ [x]) @ filter (\<lambda>x. \<not> p x) rest"
        and bs': "bs' = adjust_counters
              (\<lambda>i. bound_to i (kept' @ gap') - bound_to i ((kept @ [x]) @ (gs @ [x]) @ rest))
              (adjust_counters (\<lambda>i. bound_to i [x] - bound_to i [g]) bs)"
        by (simp_all add: PlayingSound_assign_eq)
      then show ?thesis
        using False Cons
        by (auto simp add: adjust_counters_adjust bound_to_append bound_to_Cons bound_to_Nil
              intro!: adjust_counters_cong)
    qed
  qed
qed

lemma erase_remove_if_eq:
  "erase_remove_if p v bs =
     (filter (\<lambda>x. \<not> p x) v,
      adjust_counters (\<lambda>i. bound_to i (filter (\<lambda>x. \<not> p x) v) - bound_to i v) bs)"
proof (cases "dropWhile (\<lambda>x. \<not> p x) v")
  case Nil
  then have "\<forall>x\<in>set v. \<not> p x" by simp
  then have "filter (\<lambda>x. \<not> p x) v = v" by (simp add: filter_id_conv)
  then show ?thesis
    unfolding erase_remove_if_def remove_if_def Nil
    by (simp add: bound_to_Nil adjust_counters_zero)
next
  case (Cons g rest)
  obtain kept' gap' bs' where
    run: "remove_if_shift p (takeWhile (\<lambda>x. \<not> p x) v) [g] rest bs = (kept', gap', bs')"
    by (cases "remove_if_shift p (takeWhile (\<lambda>x. \<not> p x) v) [g] rest bs") auto
  have v: "v = takeWhile (\<lambda>x. \<not> p x) v @ g # rest"
    using Cons takeWhile_dropWhile_id [of "\<lambda>x. \<not> p x" v] by simp
  have pg: "p g"
    using Cons hd_dropWhile [of "\<lambda>x. \<not> p x" v] by auto
  have "filter (\<lambda>x. \<not> p x) (takeWhile (\<lambda>x. \<not> p x) v) = takeWhile (\<lambda>x. \<not> p x) v"
    by (auto simp add: filter_id_conv dest: set_takeWhileD)
  then have flt: "filter (\<lambda>x. \<not> p x) v = takeWhile (\<lambda>x. \<not> p x) v @ filter (\<lambda>x. \<not> p x) rest"
    using pg by (subst v) simp
  from remove_if_shift_eq [OF run]
  have kept': "kept' = filter (\<lambda>x. \<not> p x) v"
    and bs': "bs' = adjust_counters (\<lambda>i. bound_to i (kept' @ gap') - bound_to i v) bs"
    using flt v by simp_all
  show ?thesis
    using Cons run kept' bs'
    by (auto simp add: erase_remove_if_def remove_if_def fold_PlayingSound_destroy
          adjust_counters_adjust bound_to_append intro!: adjust_counters_cong)
qed

lemma fst_PlaySource: "fst (PlaySource source cid collection mixer_accepts m) = mixer_accepts"
  by (simp add: PlaySource_def Play_def Let_def split: SourceKind.split)

lemma PlaySound_attempt_eq:
  "new_channel \<noteq> kInvalidChannel \<Longrightarrow>
   PlaySound_attempt source mixer_accepts collection new_channel e =
     Inr (new_channel,
          if mixer_accepts
          then e\<lparr>mixer := snd (PlaySource source new_channel collection mixer_accepts (mixer e)),
                 playing_sounds := playing_sounds e @
                   [\<lparr>sound_collection = collection, channel_id = new_channel,
                     start_time = world_time e\<rparr>],
                 buses := adjust_counters (\<lambda>i. if bus collection = Some i then 1 else 0) (buses e)\<rparr>
          else e\<lparr>mixer := snd (PlaySource source new_channel collection mixer_accepts (mixer e))\<rparr>)"
  by (auto simp add: PlaySound_attempt_def split_beta fst_PlaySource PlayingSound_construct_def
        vector_push_back_def PlayingSound_copy_eq PlayingSound_destroy_eq increment_bus_adjust
        adjust_counters_adjust bound_to_Cons bound_to_Nil Let_def intro!: adjust_counters_cong)

lemma vector_pop_back_eq:
  "vector_pop_back v bs = (butlast v, adjust_counters (\<lambda>i. - bound_to i [last v]) bs)"
  by (simp add: vector_pop_back_def PlayingSound_destroy_eq)

lemma EraseFinishedSounds_eq:
  "EraseFinishedSounds e =
     (if list_ex (\<lambda>s. channel_id s = kInvalidChannel) (playing_sounds e) then Inl AssertionFailed
      else Inr (e\<lparr>playing_sounds :=
                    filter (\<lambda>s. Playing (mixer e) (channel_id s) \<noteq> Inr False) (playing_sounds e),
                  buses := adjust_counters
                    (\<lambda>i. bound_to i (filter (\<lambda>s. Playing (mixer e) (channel_id s) \<noteq> Inr False)
                                      (playing_sounds e))
                         - bound_to i (playing_sounds e)) (buses e)\<rparr>))"
  by (simp add: EraseFinishedSounds_def erase_remove_if_eq)

lemma EraseStreams_eq:
  "EraseStreams e =
     e\<lparr>playing_sounds := filter (\<lambda>s. channel_id s \<noteq> kStreamChannel) (playing_sounds e),
       buses := adjust_counters
         (\<lambda>i. bound_to i (filter (\<lambda>s. channel_id s \<noteq> kStreamChannel) (playing_sounds e))
              - bound_to i (playing_sounds e)) (buses e)\<rparr>"
  by (simp add: EraseStreams_def erase_remove_if_eq)

text \<open>
  C3. Two playing sounds of non-stream collections with the same priority: the claim
  ranks the later-started one strictly higher and sorts it ahead. On the code,
  \<open>PriorityComparitor\<close> gives 1 for the two in either order, whatever their start times
  (the test of the start times is behind a result of 0, which
  \<open>SoundCollectionDefComparitor\<close> gives to no two non-stream definitions), and
  the sort leaves the later-started sound behind the earlier one.
\<close>

theorem PriorityComparitor_ignores_start_time:
  "PriorityComparitor (example_sound (example_effect ''a'' 1) 0 5)
                      (example_sound (example_effect ''b'' 1) 1 0) = 1
   \<and> PriorityComparitor (example_sound (example_effect ''b'' 1) 1 0)
                        (example_sound (example_effect ''a'' 1) 0 5) = 1
   \<and> PrioritizeChannels insertion_sort
        [example_sound (example_effect ''a'' 1) 0 5, example_sound (example_effect ''b'' 1) 1 0]
      = [example_sound (example_effect ''b'' 1) 1 0, example_sound (example_effect ''a'' 1) 0 5]"
  by (simp add: PriorityComparitor_def SoundCollectionDefComparitor_def example_sound_def
        example_effect_def PrioritizeChannels_def insertion_sort_def insertion_step_def
        sort_predicate_def)

lemma PriorityComparitor_non_stream:
  "\<not> stream (GetSoundCollectionDef (sound_collection a)) \<Longrightarrow>
   \<not> stream (GetSoundCollectionDef (sound_collection b)) \<Longrightarrow>
   PriorityComparitor a b =
     (if priority (GetSoundCollectionDef (sound_collection a))
         > priority (GetSoundCollectionDef (sound_collection b)) then - 1 else 1)"
  by (simp add: PriorityComparitor_def SoundCollectionDefComparitor_def)

text \<open>
  C2. When the mixer rejects the play, the claim has \<open>PlaySound\<close> return the invalid
  channel and record nothing. On the code nothing is recorded, but the channel that was
  chosen is returned: here channel 0 of two free channels.
\<close>

theorem PlaySound_returns_channel_when_play_fails:
  "(case PlaySound insertion_sort example_buffer False (Some (example_effect ''a'' 1))
           (example_engine [] (example_mixer 2 [] False)) of
      Inl err \<Rightarrow> False
    | Inr (channel, e) \<Rightarrow> channel = 0 \<and> channel \<noteq> kInvalidChannel \<and> playing_sounds e = [])"
  by code_simp

text \<open>
  C8. On a valid channel handle \<open>Stop\<close> halts the voice at once when the channel's gain
  is zero, and otherwise starts a fade-out of 10 milliseconds and does not halt.
\<close>

theorem Stop_halts_or_fades:
  assumes "Valid channel"
  shows "\<exists>s. channel = Some s \<and>
           Stop channel = Inr (Some (if Gain s = 0 then s\<lparr>voice := Voice_halted\<rparr>
                                     else s\<lparr>voice := Voice_fading_out 10\<rparr>))"
  using assms
  by (cases channel)
     (simp_all add: Valid_def Stop_def ChannelInternalState_Halt_def
        ChannelInternalState_FadeOut_def kFadeOutDurationMs_def)

theorem Stop_halts_or_fades_witness:
  "Valid (Some \<lparr>Gain = 0, voice = Voice_playing\<rparr>)
   \<and> Stop (Some \<lparr>Gain = 0, voice = Voice_playing\<rparr>) = Inr (Some \<lparr>Gain = 0, voice = Voice_halted\<rparr>)
   \<and> Valid (Some \<lparr>Gain = 1 / 2, voice = Voice_playing\<rparr>)
   \<and> Stop (Some \<lparr>Gain = 1 / 2, voice = Voice_playing\<rparr>)
       = Inr (Some \<lparr>Gain = 1 / 2, voice = Voice_fading_out 10\<rparr>)"
proof -
  have v0: "Valid (Some \<lparr>Gain = 0, voice = Voice_playing\<rparr>)"
    and v1: "Valid (Some \<lparr>Gain = 1 / 2, voice = Voice_playing\<rparr>)"
    by (simp_all add: Valid_def)
  show ?thesis
    using Stop_halts_or_fades [OF v0] Stop_halts_or_fades [OF v1] v0 v1 by simp
qed

text \<open>
  C9. When \<open>SoundBank::Initialize\<close> fails in \<open>LoadSoundBank\<close> of a bank that is not
  registered, the call reports failure and leaves the bank registered with a reference
  count of zero. The next \<open>LoadSoundBank\<close> of that name finds the entry, adds one to
  its counter and reports success; it does not consult \<open>Initialize\<close> (any initialiser
  gives the same result) and changes nothing but the counter.
\<close>

theorem LoadSoundBank_failure_leaves_entry:
  assumes "sound_bank_map e n = None"
    and "Initialize n (collection_map e) = (False, loaded, collections1)"
  shows "\<exists>e1. LoadSoundBank Initialize n e = (False, e1)
           \<and> sound_bank_map e1 n = Some \<lparr>ref_counter = 0, bank_collections = loaded\<rparr>
           \<and> (\<forall>Initialize2.
                 LoadSoundBank Initialize2 n e1 =
                   (True, e1\<lparr>sound_bank_map := (sound_bank_map e1)
                                (n \<mapsto> \<lparr>ref_counter = 1, bank_collections = loaded\<rparr>)\<rparr>))"
  using assms by (simp add: LoadSoundBank_def)

theorem LoadSoundBank_failure_leaves_entry_witness:
  "sound_bank_map (example_engine [] (example_mixer 2 [] False)) ''bank'' = None
   \<and> SoundBank_Initialize Map.empty ''bank''
         (collection_map (example_engine [] (example_mixer 2 [] False))) = (False, [], Map.empty)
   \<and> (\<exists>e1. LoadSoundBank (SoundBank_Initialize Map.empty) ''bank''
               (example_engine [] (example_mixer 2 [] False)) = (False, e1)
           \<and> map_option ref_counter (sound_bank_map e1 ''bank'') = Some 0
           \<and> fst (LoadSoundBank (SoundBank_Initialize Map.empty) ''bank'' e1) = True
           \<and> map_option ref_counter
                 (sound_bank_map (snd (LoadSoundBank (SoundBank_Initialize Map.empty) ''bank'' e1))
                    ''bank'') = Some 1
           \<and> collection_map (snd (LoadSoundBank (SoundBank_Initialize Map.empty) ''bank'' e1))
               = Map.empty)"
proof -
  have a: "sound_bank_map (example_engine [] (example_mixer 2 [] False)) ''bank'' = None"
    by (simp add: example_engine_def)
  have b: "SoundBank_Initialize Map.empty ''bank''
         (collection_map (example_engine [] (example_mixer 2 [] False))) = (False, [], Map.empty)"
    by (simp add: SoundBank_Initialize_def example_engine_def)
  from LoadSoundBank_failure_leaves_entry
         [of "example_engine [] (example_mixer 2 [] False)" "''bank''"
             "SoundBank_Initialize Map.empty" "[]" Map.empty, OF a b]
  obtain e1 where e1: "LoadSoundBank (SoundBank_Initialize Map.empty) ''bank''
               (example_engine [] (example_mixer 2 [] False)) = (False, e1)"
    and bank: "sound_bank_map e1 ''bank'' = Some \<lparr>ref_counter = 0, bank_collections = []\<rparr>"
    and again: "\<And>Initialize2. LoadSoundBank Initialize2 ''bank'' e1 =
                   (True, e1\<lparr>sound_bank_map := (sound_bank_map e1)
                                (''bank'' \<mapsto> \<lparr>ref_counter = 1, bank_collections = []\<rparr>)\<rparr>)"
    by blast
  have cm: "collection_map e1 = Map.empty"
    using e1 by (auto simp add: LoadSoundBank_def example_engine_def SoundBank_Initialize_def)
  show ?thesis
    using a b e1 bank again [of "SoundBank_Initialize Map.empty"] cm by simp
qed

lemma rearranges_Nil_iff: "rearranges std_sort \<Longrightarrow> (std_sort lt xs = []) = (xs = [])"
  by (metis rearranges_def mset_zero_iff)

lemma PlaySound_attempt_not_back:
  "PlaySound_attempt source mixer_accepts collection new_channel e \<noteq> Inl BackOfEmptyVector"
  by (cases "new_channel = kInvalidChannel")
     (simp_all add: PlaySound_attempt_eq, simp add: PlaySound_attempt_def)

lemma Halt_not_back: "Halt m cid \<noteq> Inl BackOfEmptyVector"
  by (simp add: Halt_def)

lemma Playing_not_back: "Playing m cid \<noteq> Inl BackOfEmptyVector"
  by (simp add: Playing_def)

text \<open>
  C10. The preemption branch of \<open>PlaySound\<close> reads \<open>back()\<close> of the table without a
  test for emptiness. For a request of a non-stream collection whose pruning succeeds,
  the call is undefined exactly when no buffer channel is free and the pruned table is
  empty; a mixer with zero allocated channels and an empty table is such a state.
\<close>

theorem PlaySound_back_of_empty_table:
  assumes "rearranges std_sort"
    and "\<not> stream (GetSoundCollectionDef collection)"
    and "EraseFinishedSounds e = Inr e1"
  shows "((PlaySound std_sort source mixer_accepts (Some collection) e = Inl BackOfEmptyVector)
           = (FindFreeChannel (mixer e1) False = kInvalidChannel \<and> playing_sounds e1 = []))
    \<and> (allocated_channels (mixer e) = 0 \<and> playing_sounds e = [] \<longrightarrow>
         PlaySound std_sort source mixer_accepts (Some collection) e = Inl BackOfEmptyVector)"
proof -
  let ?sorted = "PrioritizeChannels std_sort (playing_sounds e1)"
  have sorted: "(?sorted = []) = (playing_sounds e1 = [])"
    using assms(1) by (simp add: PrioritizeChannels_def rearranges_Nil_iff)
  have first: "(PlaySound std_sort source mixer_accepts (Some collection) e = Inl BackOfEmptyVector)
           = (FindFreeChannel (mixer e1) False = kInvalidChannel \<and> playing_sounds e1 = [])"
  proof (cases "FindFreeChannel (mixer e1) False = kInvalidChannel")
    case True
    show ?thesis
    proof (cases "playing_sounds e1 = []")
      case empty: True
      with True sorted assms show ?thesis
        by (simp add: PlaySound_def Let_def)
    next
      case False
      with True sorted assms show ?thesis
        by (auto simp add: PlaySound_def Let_def split_beta PlaySound_attempt_not_back
              Halt_not_back split: sum.split)
    qed
  next
    case False
    with assms show ?thesis
      by (auto simp add: PlaySound_def Let_def PlaySound_attempt_not_back Halt_not_back
            Playing_not_back split: sum.split bool.split)
  qed
  have "allocated_channels (mixer e) = 0 \<and> playing_sounds e = [] \<longrightarrow>
         PlaySound std_sort source mixer_accepts (Some collection) e = Inl BackOfEmptyVector"
  proof
    assume a: "allocated_channels (mixer e) = 0 \<and> playing_sounds e = []"
    with assms(3) have "mixer e1 = mixer e" and "playing_sounds e1 = []"
      by (auto simp add: EraseFinishedSounds_eq split: if_splits)
    with a first show "PlaySound std_sort source mixer_accepts (Some collection) e = Inl BackOfEmptyVector"
      by (simp add: FindFreeChannel_def AllocatedChannelCount_def PlayingChannelCount_def)
  qed
  with first show ?thesis by simp
qed

theorem PlaySound_back_of_empty_table_witness:
  "rearranges (insertion_sort :: PlayingSound sort_routine)
   \<and> \<not> stream (GetSoundCollectionDef (example_effect ''a'' 1))
   \<and> EraseFinishedSounds (example_engine [] (example_mixer 0 [] False))
       = Inr (example_engine [] (example_mixer 0 [] False))
   \<and> PlaySound insertion_sort example_buffer True (Some (example_effect ''a'' 1))
        (example_engine [] (example_mixer 0 [] False)) = Inl BackOfEmptyVector"
proof -
  have r: "rearranges (insertion_sort :: PlayingSound sort_routine)"
    by (rule rearranges_insertion_sort)
  have s: "\<not> stream (GetSoundCollectionDef (example_effect ''a'' 1))"
    by (simp add: example_effect_def)
  have p: "EraseFinishedSounds (example_engine [] (example_mixer 0 [] False))
       = Inr (example_engine [] (example_mixer 0 [] False))"
    by (simp add: EraseFinishedSounds_eq example_engine_def bound_to_Nil adjust_counters_zero)
  have z: "allocated_channels (mixer (example_engine [] (example_mixer 0 [] False))) = 0
           \<and> playing_sounds (example_engine [] (example_mixer 0 [] False)) = []"
    by (simp add: example_engine_def example_mixer_def)
  show ?thesis
    using PlaySound_back_of_empty_table [OF r s p, of example_buffer True] r s p z by simp
qed

lemma has_refs_load_collection:
  "has_refs collections c k \<Longrightarrow>
   has_refs (load_collection entry collections) c (k + (if fst entry = c then 1 else 0))"
  by (auto simp add: has_refs_def load_collection_def split: option.splits)

lemma has_refs_fold_load_collection:
  "has_refs collections c k \<Longrightarrow>
   has_refs (fold load_collection listed collections) c (k + int (count_list (map fst listed) c))"
proof (induction listed arbitrary: collections k)
  case Nil
  then show ?case by simp
next
  case (Cons entry listed)
  from Cons.IH [OF has_refs_load_collection [OF Cons.prems, of entry]]
  show ?case by (auto simp add: add.assoc split: if_splits)
qed

lemma has_refs_release_collection:
  "has_refs collections c k \<Longrightarrow>
   has_refs (release_collection n collections) c (if n = c then max 0 (k - 1) else k)"
  by (auto simp add: has_refs_def release_collection_def split: option.splits)

lemma has_refs_fold_release_collection:
  "has_refs collections c k \<Longrightarrow>
   has_refs (fold release_collection held collections) c (max 0 (k - int (count_list held c)))"
proof (induction held arbitrary: collections k)
  case Nil
  then show ?case by (auto simp add: has_refs_def split: option.splits)
next
  case (Cons n held)
  from Cons.IH [OF has_refs_release_collection [OF Cons.prems, of n]]
  show ?case by (auto simp add: max_def algebra_simps split: if_splits)
qed

lemma count_list_pos: "x \<in> set xs \<Longrightarrow> 0 < count_list xs x"
  by (induction xs) auto

lemma LoadSoundBank_registered:
  "sound_bank_map e n = Some bank \<Longrightarrow>
   LoadSoundBank Initialize n e =
     (True, e\<lparr>sound_bank_map := (sound_bank_map e)(n \<mapsto> bank\<lparr>ref_counter := ref_counter bank + 1\<rparr>)\<rparr>)"
  by (simp add: LoadSoundBank_def)

lemma UnloadSoundBank_registered:
  "sound_bank_map e n = Some bank \<Longrightarrow>
   UnloadSoundBank Deinitialize n e =
     Inr (if ref_counter bank - 1 = 0
          then e\<lparr>sound_bank_map := (sound_bank_map e)(n \<mapsto> bank\<lparr>ref_counter := 0\<rparr>),
                 collection_map := Deinitialize (bank_collections bank) (collection_map e)\<rparr>
          else e\<lparr>sound_bank_map := (sound_bank_map e)(n \<mapsto> bank\<lparr>ref_counter := ref_counter bank - 1\<rparr>)\<rparr>)"
  by (simp add: UnloadSoundBank_def Let_def)

lemma shared_collection_scenario:
  assumes a: "sound_bank_map e a = None" and b: "sound_bank_map e b = None" and ab: "a \<noteq> b"
    and fa: "files a = Some listed_a" and fb: "files b = Some listed_b"
    and ca: "c \<in> fst ` set listed_a" and cb: "c \<in> fst ` set listed_b"
    and c: "collection_map e c = None"
  shows "\<exists>e1 e2 e3 e4.
           LoadSoundBank (SoundBank_Initialize files) a e = (True, e1)
         \<and> LoadSoundBank (SoundBank_Initialize files) b e1 = (True, e2)
         \<and> UnloadSoundBank SoundBank_Deinitialize a e2 = Inr e3
         \<and> GetSoundHandle e3 c \<noteq> None
         \<and> UnloadSoundBank SoundBank_Deinitialize b e3 = Inr e4
         \<and> GetSoundHandle e4 c = None"
proof -
  let ?ka = "int (count_list (map fst listed_a) c)"
  let ?kb = "int (count_list (map fst listed_b) c)"
  have ka: "0 < ?ka" using ca by (simp add: count_list_pos)
  have kb: "0 < ?kb" using cb by (simp add: count_list_pos)
  let ?cm1 = "fold load_collection listed_a (collection_map e)"
  let ?cm2 = "fold load_collection listed_b ?cm1"
  let ?cm3 = "fold release_collection (map fst listed_a) ?cm2"
  let ?cm4 = "fold release_collection (map fst listed_b) ?cm3"
  let ?bank_a = "\<lparr>ref_counter = 1, bank_collections = map fst listed_a\<rparr>"
  let ?bank_b = "\<lparr>ref_counter = 1, bank_collections = map fst listed_b\<rparr>"
  let ?e1 = "e\<lparr>sound_bank_map := (sound_bank_map e)(a \<mapsto> ?bank_a), collection_map := ?cm1\<rparr>"
  let ?e2 = "?e1\<lparr>sound_bank_map := (sound_bank_map ?e1)(b \<mapsto> ?bank_b), collection_map := ?cm2\<rparr>"
  let ?e3 = "?e2\<lparr>sound_bank_map := (sound_bank_map ?e2)(a \<mapsto> ?bank_a\<lparr>ref_counter := 0\<rparr>),
                 collection_map := ?cm3\<rparr>"
  let ?e4 = "?e3\<lparr>sound_bank_map := (sound_bank_map ?e3)(b \<mapsto> ?bank_b\<lparr>ref_counter := 0\<rparr>),
                 collection_map := ?cm4\<rparr>"
  have r0: "has_refs (collection_map e) c 0"
    using c by (simp add: has_refs_def)
  have r1: "has_refs ?cm1 c ?ka"
    using has_refs_fold_load_collection [OF r0, of listed_a] by simp
  have r2: "has_refs ?cm2 c (?ka + ?kb)"
    by (rule has_refs_fold_load_collection [OF r1])
  have r3: "has_refs ?cm3 c ?kb"
    using has_refs_fold_release_collection [OF r2, of "map fst listed_a"] kb by simp
  have r4: "has_refs ?cm4 c 0"
    using has_refs_fold_release_collection [OF r3, of "map fst listed_b"] by simp
  have l1: "LoadSoundBank (SoundBank_Initialize files) a e = (True, ?e1)"
    using a fa by (simp add: LoadSoundBank_def SoundBank_Initialize_def)
  have l2: "LoadSoundBank (SoundBank_Initialize files) b ?e1 = (True, ?e2)"
    using b ab fb by (simp add: LoadSoundBank_def SoundBank_Initialize_def)
  have u3: "UnloadSoundBank SoundBank_Deinitialize a ?e2 = Inr ?e3"
    using ab by (simp add: UnloadSoundBank_def SoundBank_Deinitialize_def)
  have u4: "UnloadSoundBank SoundBank_Deinitialize b ?e3 = Inr ?e4"
    using ab by (simp add: UnloadSoundBank_def SoundBank_Deinitialize_def)
  have h3: "GetSoundHandle ?e3 c \<noteq> None"
    using r3 kb by (auto simp add: GetSoundHandle_def has_refs_def split: option.splits)
  have h4: "GetSoundHandle ?e4 c = None"
    using r4 by (auto simp add: GetSoundHandle_def has_refs_def split: option.splits)
  from l1 l2 u3 h3 u4 h4 show ?thesis by blast
qed

text \<open>
  Reference counting of banks. A \<open>LoadSoundBank\<close> of a bank that is registered adds
  one to the bank's counter, reports success and initialises nothing. An
  \<open>UnloadSoundBank\<close> of a registered bank takes one from the counter and deinitialises
  the bank exactly when the counter reaches zero. So, for two banks that
  both list a collection \<open>c\<close>, loaded into an engine that has neither bank and not \<open>c\<close>:
  after the first bank is unloaded \<open>c\<close> is still loaded, and after the second is
  unloaded too \<open>c\<close> is released.
\<close>

lemma bank_reference_counting_fresh:
  assumes "sound_bank_map e a = None" and "sound_bank_map e b = None" and "a \<noteq> b"
    and "files a = Some listed_a" and "files b = Some listed_b"
    and "c \<in> fst ` set listed_a" and "c \<in> fst ` set listed_b"
    and "collection_map e c = None"
  shows "(\<forall>Initialize n bank e'.
            sound_bank_map e' n = Some bank \<longrightarrow>
            LoadSoundBank Initialize n e' =
              (True, e'\<lparr>sound_bank_map :=
                          (sound_bank_map e')(n \<mapsto> bank\<lparr>ref_counter := ref_counter bank + 1\<rparr>)\<rparr>))
       \<and> (\<forall>Deinitialize n bank e'.
            sound_bank_map e' n = Some bank \<longrightarrow>
            UnloadSoundBank Deinitialize n e' =
              Inr (if ref_counter bank - 1 = 0
                   then e'\<lparr>sound_bank_map := (sound_bank_map e')(n \<mapsto> bank\<lparr>ref_counter := 0\<rparr>),
                           collection_map := Deinitialize (bank_collections bank) (collection_map e')\<rparr>
                   else e'\<lparr>sound_bank_map :=
                            (sound_bank_map e')(n \<mapsto> bank\<lparr>ref_counter := ref_counter bank - 1\<rparr>)\<rparr>))
       \<and> (\<exists>e1 e2 e3 e4.
             LoadSoundBank (SoundBank_Initialize files) a e = (True, e1)
           \<and> LoadSoundBank (SoundBank_Initialize files) b e1 = (True, e2)
           \<and> UnloadSoundBank SoundBank_Deinitialize a e2 = Inr e3
           \<and> GetSoundHandle e3 c \<noteq> None
           \<and> UnloadSoundBank SoundBank_Deinitialize b e3 = Inr e4
           \<and> GetSoundHandle e4 c = None)"
  using shared_collection_scenario [OF assms] LoadSoundBank_registered UnloadSoundBank_registered
  by blast

lemma bank_reference_counting_fresh_example:
  "sound_bank_map (example_engine [] (example_mixer 2 [] False)) ''a.bank'' = None
   \<and> sound_bank_map (example_engine [] (example_mixer 2 [] False)) ''b.bank'' = None
   \<and> ''a.bank'' \<noteq> ''b.bank''
   \<and> example_files ''a.bank'' = Some [(''explosion'', example_effect ''explosion'' 5)]
   \<and> example_files ''b.bank'' = Some [(''explosion'', example_effect ''explosion'' 5),
                                       (''theme'', example_music ''theme'')]
   \<and> collection_map (example_engine [] (example_mixer 2 [] False)) ''explosion'' = None
   \<and> (\<exists>e1 e2 e3 e4.
         LoadSoundBank (SoundBank_Initialize example_files) ''a.bank''
           (example_engine [] (example_mixer 2 [] False)) = (True, e1)
       \<and> LoadSoundBank (SoundBank_Initialize example_files) ''b.bank'' e1 = (True, e2)
       \<and> UnloadSoundBank SoundBank_Deinitialize ''a.bank'' e2 = Inr e3
       \<and> GetSoundHandle e3 ''explosion'' \<noteq> None
       \<and> UnloadSoundBank SoundBank_Deinitialize ''b.bank'' e3 = Inr e4
       \<and> GetSoundHandle e4 ''explosion'' = None)"
proof -
  have a: "sound_bank_map (example_engine [] (example_mixer 2 [] False)) ''a.bank'' = None"
    and b: "sound_bank_map (example_engine [] (example_mixer 2 [] False)) ''b.bank'' = None"
    and c: "collection_map (example_engine [] (example_mixer 2 [] False)) ''explosion'' = None"
    by (simp_all add: example_engine_def)
  have ab: "''a.bank'' \<noteq> ''b.bank''" by simp
  have fa: "example_files ''a.bank'' = Some [(''explosion'', example_effect ''explosion'' 5)]"
    and fb: "example_files ''b.bank'' = Some [(''explosion'', example_effect ''explosion'' 5),
                                       (''theme'', example_music ''theme'')]"
    by (simp_all add: example_files_def)
  have ca: "''explosion'' \<in> fst ` set [(''explosion'', example_effect ''explosion'' 5)]"
    and cb: "''explosion'' \<in> fst ` set [(''explosion'', example_effect ''explosion'' 5),
                                       (''theme'', example_music ''theme'')]"
    by simp_all
  from bank_reference_counting_fresh [OF a b ab fa fb ca cb c] a b ab fa fb c
  show ?thesis by blast
qed





lemma length_filter_mset_eq:
  assumes "mset xs = mset ys"
  shows "length (filter P xs) = length (filter P ys)"
proof -
  have "length (filter P xs) = size (filter_mset P (mset xs))"
    by (simp only: mset_filter [symmetric] size_mset)
  also have "\<dots> = size (filter_mset P (mset ys))"
    by (simp only: assms)
  also have "\<dots> = length (filter P ys)"
    by (simp only: mset_filter [symmetric] size_mset)
  finally show ?thesis .
qed




lemma EraseFinishedSounds_Inr:
  "EraseFinishedSounds e = Inr e1 \<Longrightarrow>
   playing_sounds e1 = filter (\<lambda>s. Playing (mixer e) (channel_id s) \<noteq> Inr False) (playing_sounds e)
   \<and> mixer e1 = mixer e \<and> world_time e1 = world_time e
   \<and> buses e1 = adjust_counters
        (\<lambda>i. bound_to i (playing_sounds e1) - bound_to i (playing_sounds e)) (buses e)"
  by (auto simp add: EraseFinishedSounds_eq split: if_splits)


lemma PlaySound_attempt_Inr:
  "PlaySound_attempt source mixer_accepts collection new_channel e = Inr (channel, e') \<Longrightarrow>
   channel = new_channel \<and> new_channel \<noteq> kInvalidChannel
   \<and> playing_sounds e' = playing_sounds e @
        (if mixer_accepts
         then [\<lparr>sound_collection = collection, channel_id = new_channel, start_time = world_time e\<rparr>]
         else [])
   \<and> buses e' = adjust_counters
        (\<lambda>i. if mixer_accepts \<and> bus collection = Some i then 1 else 0) (buses e)
   \<and> mixer e' = snd (PlaySource source new_channel collection mixer_accepts (mixer e))"
  by (cases "new_channel = kInvalidChannel")
     (auto simp add: PlaySound_attempt_eq adjust_counters_zero, simp add: PlaySound_attempt_def)









text \<open>
  C1. With \<^verbatim>\<open>mid\<close> (priority 5, channel 0) and \<^verbatim>\<open>low\<close> (priority 1, channel 1)
  playing on the two allocated channels, a request of priority 3 finds no free buffer
  channel and ranks strictly higher than \<^verbatim>\<open>low\<close>, the lowest-priority playing sound:
  the claim has \<^verbatim>\<open>low\<close> halted and removed and the new sound played on channel 1.
  On the code the predicate that \<^verbatim>\<open>std::sort\<close> reads is true of \<^verbatim>\<open>mid\<close> and
  \<^verbatim>\<open>low\<close> in either order, the sort leaves \<^verbatim>\<open>mid\<close> last, the request does not
  outrank \<^verbatim>\<open>mid\<close>, and \<open>PlaySound\<close> returns the invalid channel with both sounds
  still in the table.
\<close>

theorem PlaySound_refuses_request_that_outranks_lowest:
  "FindFreeChannel (example_mixer 2 [0, 1] False) False = kInvalidChannel
   \<and> SoundCollectionDefComparitor (GetSoundCollectionDef (example_effect ''three'' 3))
        (GetSoundCollectionDef (example_effect ''low'' 1)) < 0
   \<and> sort_predicate (example_sound (example_effect ''mid'' 5) 0 1)
                      (example_sound (example_effect ''low'' 1) 1 2)
   \<and> sort_predicate (example_sound (example_effect ''low'' 1) 1 2)
                      (example_sound (example_effect ''mid'' 5) 0 1)
   \<and> PrioritizeChannels insertion_sort
        [example_sound (example_effect ''mid'' 5) 0 1, example_sound (example_effect ''low'' 1) 1 2]
      = [example_sound (example_effect ''low'' 1) 1 2, example_sound (example_effect ''mid'' 5) 0 1]
   \<and> (case PlaySound insertion_sort example_buffer True (Some (example_effect ''three'' 3))
           (example_engine [example_sound (example_effect ''mid'' 5) 0 1,
                            example_sound (example_effect ''low'' 1) 1 2]
              (example_mixer 2 [0, 1] False)) of
      Inl err \<Rightarrow> False
    | Inr (channel, e') \<Rightarrow>
        channel = kInvalidChannel
      \<and> playing_sounds e' = [example_sound (example_effect ''low'' 1) 1 2,
                              example_sound (example_effect ''mid'' 5) 0 1]
      \<and> channel_playing (mixer e') 1)"
  by code_simp

lemma accounted_iff:
  "accounted bs sounds = (\<forall>i < length bs. sound_counter (bs ! i) = bound_to i sounds)"
  by (auto simp add: accounted_def list_all_iff)

lemma accounted_adjust:
  assumes "accounted bs sounds"
    and "\<And>i. i < length bs \<Longrightarrow> d i = bound_to i sounds' - bound_to i sounds"
  shows "accounted (adjust_counters d bs) sounds'"
  using assms by (simp add: accounted_iff length_adjust_counters nth_adjust_counters)

lemma accounted_counters_cong:
  assumes "map sound_counter bs' = map sound_counter bs"
  shows "accounted bs' sounds = accounted bs sounds"
proof -
  from assms have len: "length bs' = length bs"
    by (metis length_map)
  have "\<And>i. i < length bs \<Longrightarrow> sound_counter (bs' ! i) = sound_counter (bs ! i)"
    using assms len by (metis nth_map)
  with len show ?thesis by (simp add: accounted_iff)
qed

lemma bound_to_rearranged:
  assumes "rearranges std_sort"
  shows "bound_to i (std_sort lt xs) = bound_to i xs"
proof -
  from assms have "mset (std_sort lt xs) = mset xs"
    unfolding rearranges_def by blast
  then have "length (filter (\<lambda>s. bus (sound_collection s) = Some i) (std_sort lt xs))
               = length (filter (\<lambda>s. bus (sound_collection s) = Some i) xs)"
    by (rule length_filter_mset_eq)
  then show ?thesis by (simp add: bound_to_def)
qed

lemma bound_to_butlast:
  assumes "xs \<noteq> []"
  shows "bound_to i (butlast xs) = bound_to i xs - bound_to i [last xs]"
proof -
  have "bound_to i (butlast xs @ [last xs]) = bound_to i (butlast xs) + bound_to i [last xs]"
    by (rule bound_to_append)
  with assms show ?thesis by simp
qed

lemma accounted_EraseFinishedSounds:
  assumes "EraseFinishedSounds e = Inr e1" and "accounted (buses e) (playing_sounds e)"
  shows "accounted (buses e1) (playing_sounds e1)"
proof -
  note p = EraseFinishedSounds_Inr [OF assms(1)]
  from p have "buses e1 = adjust_counters
        (\<lambda>i. bound_to i (playing_sounds e1) - bound_to i (playing_sounds e)) (buses e)"
    by simp
  then show ?thesis
    using accounted_adjust [OF assms(2), of _ "playing_sounds e1"] by simp
qed

lemma accounted_EraseStreams:
  assumes "accounted (buses e) (playing_sounds e)"
  shows "accounted (buses (EraseStreams e)) (playing_sounds (EraseStreams e))"
  using accounted_adjust [OF assms] by (simp add: EraseStreams_eq)

lemma accounted_attempt:
  assumes "PlaySound_attempt source mixer_accepts collection new_channel e = Inr (channel, e')"
    and "accounted (buses e) (playing_sounds e)"
  shows "accounted (buses e') (playing_sounds e')"
proof -
  note a = PlaySound_attempt_Inr [OF assms(1)]
  from a have b: "buses e' = adjust_counters
        (\<lambda>i. if mixer_accepts \<and> bus collection = Some i then 1 else 0) (buses e)"
    by simp
  from a have s: "playing_sounds e' = playing_sounds e @
        (if mixer_accepts
         then [\<lparr>sound_collection = collection, channel_id = new_channel, start_time = world_time e\<rparr>]
         else [])"
    by simp
  show ?thesis
    unfolding b
    by (rule accounted_adjust [OF assms(2)])
       (simp add: s bound_to_append bound_to_Cons bound_to_Nil)
qed

lemma accounted_PlaySound:
  assumes r: "rearranges std_sort"
    and acc: "accounted (buses e) (playing_sounds e)"
    and run: "PlaySound std_sort source mixer_accepts sound_handle e = Inr (channel, e')"
  shows "accounted (buses e') (playing_sounds e')"
proof (cases sound_handle)
  case None
  with run acc show ?thesis by (simp add: PlaySound_def)
next
  case (Some collection)
  from run Some obtain e1 where prune: "EraseFinishedSounds e = Inr e1"
    by (cases "EraseFinishedSounds e") (auto simp add: PlaySound_def)
  note acc1 = accounted_EraseFinishedSounds [OF prune acc]
  let ?new = "FindFreeChannel (mixer e1) (stream (GetSoundCollectionDef collection))"
  let ?arranged = "PrioritizeChannels std_sort (playing_sounds e1)"
  have arranged: "\<And>i. bound_to i ?arranged = bound_to i (playing_sounds e1)"
    using r by (simp add: PrioritizeChannels_def bound_to_rearranged)
  have acc_arranged: "accounted (buses e1) ?arranged"
    using acc1 arranged by (simp add: accounted_iff)
  consider (full) "?new = kInvalidChannel"
    | (stream) "?new \<noteq> kInvalidChannel" "?new = kStreamChannel"
    | (buffer) "?new \<noteq> kInvalidChannel" "?new \<noteq> kStreamChannel"
    by blast
  then show ?thesis
  proof cases
    case full
    show ?thesis
    proof (cases "?arranged = []")
      case True
      with run Some prune full show ?thesis by (simp add: PlaySound_def Let_def)
    next
      case nonempty: False
      show ?thesis
      proof (cases "SoundCollectionDefComparitor (GetSoundCollectionDef collection)
                      (GetSoundCollectionDef (sound_collection (last ?arranged))) < 0")
        case False
        with run Some prune full nonempty
        have "e' = e1\<lparr>playing_sounds := ?arranged\<rparr>"
          by (auto simp add: PlaySound_def Let_def)
        with acc_arranged show ?thesis by simp
      next
        case True
        with run Some prune full nonempty obtain m where
          attempt: "PlaySound_attempt source mixer_accepts collection (channel_id (last ?arranged))
                      (e1\<lparr>playing_sounds := butlast ?arranged,
                          buses := adjust_counters (\<lambda>i. - bound_to i [last ?arranged]) (buses e1),
                          mixer := m\<rparr>) = Inr (channel, e')"
          by (auto simp add: PlaySound_def Let_def vector_pop_back_eq split: sum.splits)
        have "accounted (adjust_counters (\<lambda>i. - bound_to i [last ?arranged]) (buses e1))
                (butlast ?arranged)"
          by (rule accounted_adjust [OF acc_arranged]) (simp add: bound_to_butlast [OF nonempty])
        with accounted_attempt [OF attempt] show ?thesis by simp
      qed
    qed
  next
    case stream
    show ?thesis
    proof (cases "music_playing (mixer e1)")
      case True
      with run Some prune stream have
        attempt: "PlaySound_attempt source mixer_accepts collection kStreamChannel
                    (EraseStreams (e1\<lparr>mixer := (mixer e1)\<lparr>music_playing := False\<rparr>\<rparr>)) = Inr (channel, e')"
        by (auto simp add: PlaySound_def Let_def Playing_def Halt_def)
      have "accounted (buses (e1\<lparr>mixer := (mixer e1)\<lparr>music_playing := False\<rparr>\<rparr>))
              (playing_sounds (e1\<lparr>mixer := (mixer e1)\<lparr>music_playing := False\<rparr>\<rparr>))"
        using acc1 by simp
      from accounted_attempt [OF attempt accounted_EraseStreams [OF this]] show ?thesis .
    next
      case False
      with run Some prune stream have
        attempt: "PlaySound_attempt source mixer_accepts collection kStreamChannel e1 = Inr (channel, e')"
        by (auto simp add: PlaySound_def Let_def Playing_def Halt_def)
      from accounted_attempt [OF attempt acc1] show ?thesis .
    qed
  next
    case buffer
    with run Some prune have
      attempt: "PlaySound_attempt source mixer_accepts collection ?new e1 = Inr (channel, e')"
      by (auto simp add: PlaySound_def Let_def)
    from accounted_attempt [OF attempt acc1] show ?thesis .
  qed
qed

lemma fold_step_None:
  "fold (\<lambda>child r. case r of None \<Rightarrow> None | Some x \<Rightarrow> f child x) cs None = None"
  by (induction cs) simp_all

lemma fold_step_invariant:
  assumes "fold (\<lambda>child r. case r of None \<Rightarrow> None | Some x \<Rightarrow> f child x) cs (Some x0) = Some y"
    and "I seen x0"
    and "\<And>seen c x x'. I seen x \<Longrightarrow> c \<in> set cs \<Longrightarrow> f c x = Some x' \<Longrightarrow> I (seen @ [c]) x'"
  shows "I (seen @ cs) y"
  using assms
proof (induction cs arbitrary: seen x0)
  case Nil
  then show ?case by simp
next
  case (Cons c cs)
  show ?case
  proof (cases "f c x0")
    case None
    with Cons.prems(1) show ?thesis by (simp add: fold_step_None)
  next
    case (Some x1)
    with Cons.prems(1)
    have run: "fold (\<lambda>child r. case r of None \<Rightarrow> None | Some x \<Rightarrow> f child x) cs (Some x1) = Some y"
      by simp
    have step: "I (seen @ [c]) x1"
      using Cons.prems(2,3) Some by simp
    have "I ((seen @ [c]) @ cs) y"
      by (rule Cons.IH [OF run step]) (use Cons.prems(3) in simp)
    then show ?thesis by simp
  qed
qed



lemma length_shape: "length (shape bs) = length bs"
  by (simp add: shape_def)

lemma shape_eq_length: "shape bs' = shape bs \<Longrightarrow> length bs' = length bs"
  by (metis length_shape)

lemma shape_eq_nth:
  assumes "shape bs' = shape bs" and "i < length bs"
  shows "(bs' ! i)\<lparr>bus_gain := 0\<rparr> = (bs ! i)\<lparr>bus_gain := 0\<rparr>"
proof -
  have "shape bs' ! i = shape bs ! i" using assms(1) by simp
  then show ?thesis
    using assms(2) shape_eq_length [OF assms(1)] by (simp add: shape_def)
qed

lemma shape_eq_fields:
  assumes "shape bs' = shape bs" and "i < length bs"
  shows "bus_def (bs' ! i) = bus_def (bs ! i)"
    and "child_buses (bs' ! i) = child_buses (bs ! i)"
    and "duck_buses (bs' ! i) = duck_buses (bs ! i)"
    and "duck_gain (bs' ! i) = duck_gain (bs ! i)"
    and "sound_counter (bs' ! i) = sound_counter (bs ! i)"
proof -
  note eq = shape_eq_nth [OF assms]
  show "bus_def (bs' ! i) = bus_def (bs ! i)"
    using arg_cong [OF eq, of bus_def] by simp
  show "child_buses (bs' ! i) = child_buses (bs ! i)"
    using arg_cong [OF eq, of child_buses] by simp
  show "duck_buses (bs' ! i) = duck_buses (bs ! i)"
    using arg_cong [OF eq, of duck_buses] by simp
  show "duck_gain (bs' ! i) = duck_gain (bs ! i)"
    using arg_cong [OF eq, of duck_gain] by simp
  show "sound_counter (bs' ! i) = sound_counter (bs ! i)"
    using arg_cong [OF eq, of sound_counter] by simp
qed

lemma shape_update_gain: "shape (bs[i := (bs ! i)\<lparr>bus_gain := g\<rparr>]) = shape bs"
proof (cases "i < length bs")
  case True
  show ?thesis
    by (rule nth_equalityI) (auto simp add: shape_def nth_list_update True)
next
  case False
  then have "length bs \<le> i" by simp
  then show ?thesis by (simp only: list_update_beyond)
qed

lemma shape_eq_counters:
  assumes "shape bs' = shape bs"
  shows "map sound_counter bs' = map sound_counter bs"
  by (rule nth_equalityI)
     (simp_all add: shape_eq_length [OF assms] shape_eq_fields(5) [OF assms])

lemma shape_eq_is_chain:
  assumes "shape bs' = shape bs"
  shows "is_chain bs' chain = is_chain bs chain"
proof (induction chain)
  case Nil
  show ?case by simp
next
  case (Cons i rest)
  show ?case
  proof (cases rest)
    case Nil
    then show ?thesis using shape_eq_length [OF assms] by simp
  next
    case (Cons j more)
    with Cons.IH show ?thesis
      using shape_eq_length [OF assms] shape_eq_fields(2) [OF assms, of i] by auto
  qed
qed

lemma chain_gain_Cons:
  "chain_gain bs g (i # chain)
     = chain_gain bs (g * bus_def_gain (bus_def (bs ! i)) * duck_gain (bs ! i)) chain"
  by (simp add: chain_gain_def)

lemma shape_eq_chain_gain:
  assumes "shape bs' = shape bs" and "is_chain bs chain"
  shows "chain_gain bs' g chain = chain_gain bs g chain"
  using assms(2)
proof (induction chain arbitrary: g)
  case Nil
  then show ?case by (simp add: chain_gain_def)
next
  case (Cons i rest)
  then have i: "i < length bs" by (cases rest) simp_all
  let ?g' = "g * bus_def_gain (bus_def (bs' ! i)) * duck_gain (bs' ! i)"
  let ?g = "g * bus_def_gain (bus_def (bs ! i)) * duck_gain (bs ! i)"
  have step: "?g' = ?g"
    by (simp add: shape_eq_fields(1,4) [OF assms(1) i])
  have rest: "chain_gain bs' ?g' rest = chain_gain bs ?g' rest"
  proof (cases rest)
    case Nil
    then show ?thesis by (simp add: chain_gain_def)
  next
    case (Cons j more)
    with Cons.prems have "is_chain bs rest" by simp
    then show ?thesis by (rule Cons.IH)
  qed
  have "chain_gain bs' g (i # rest) = chain_gain bs' ?g' rest"
    by (rule chain_gain_Cons)
  also have "\<dots> = chain_gain bs ?g' rest"
    by (rule rest)
  also have "\<dots> = chain_gain bs ?g rest"
    by (simp only: step)
  also have "\<dots> = chain_gain bs g (i # rest)"
    by (rule chain_gain_Cons [symmetric])
  finally show ?case .
qed



lemma is_chain_last: "is_chain bs chain \<Longrightarrow> last chain < length bs"
  by (induction bs chain rule: is_chain.induct) simp_all

lemma is_chain_hd: "is_chain bs chain \<Longrightarrow> hd chain < length bs"
  by (induction bs chain rule: is_chain.induct) simp_all

lemma is_chain_Cons:
  assumes "is_chain bs chain" and "i < length bs" and "hd chain \<in> set (child_buses (bs ! i))"
  shows "is_chain bs (i # chain)"
  using assms by (cases chain) simp_all

lemma chain_from_to_Cons:
  assumes "chain_from_to bs c x chain" and "i < length bs" and "c \<in> set (child_buses (bs ! i))"
  shows "chain_from_to bs i x (i # chain)"
proof -
  from assms(1) have ch: "is_chain bs chain" and hd: "hd chain = c" and last: "last chain = x"
    by (simp_all add: chain_from_to_def)
  from ch have "chain \<noteq> []" by (cases chain) simp_all
  with is_chain_Cons [OF ch assms(2)] hd last assms(3) show ?thesis
    by (simp add: chain_from_to_def)
qed

lemma chain_from_to_cases:
  assumes "chain_from_to bs i x chain"
  shows "(x = i \<and> i < length bs)
       \<or> (\<exists>c rest. c \<in> set (child_buses (bs ! i)) \<and> i < length bs \<and> chain_from_to bs c x (c # rest))"
proof (cases chain)
  case Nil
  with assms show ?thesis by (simp add: chain_from_to_def)
next
  case (Cons a rest)
  show ?thesis
  proof (cases rest)
    case Nil
    with Cons assms show ?thesis by (simp add: chain_from_to_def)
  next
    case (Cons c more)
    with \<open>chain = a # rest\<close> assms
    have "c \<in> set (child_buses (bs ! i)) \<and> i < length bs \<and> chain_from_to bs c x (c # more)"
      by (auto simp add: chain_from_to_def)
    then show ?thesis by blast
  qed
qed

lemma shape_eq_chain_from_to:
  assumes "shape bs' = shape bs"
  shows "chain_from_to bs' i x chain = chain_from_to bs i x chain"
proof -
  have "is_chain bs' chain = is_chain bs chain"
    by (rule shape_eq_is_chain [OF assms])
  then show ?thesis by (simp only: chain_from_to_def)
qed

lemma UpdateGain_effect:
  "UpdateGain depth i g bs = Some bs' \<Longrightarrow>
     shape bs' = shape bs
   \<and> (\<forall>x < length bs.
          bus_gain (bs' ! x) = bus_gain (bs ! x)
        \<or> (\<exists>chain. chain_from_to bs i x chain \<and> bus_gain (bs' ! x) = chain_gain bs g chain))
   \<and> (\<forall>x chain. chain_from_to bs i x chain \<longrightarrow>
          (\<exists>chain'. chain_from_to bs i x chain' \<and> bus_gain (bs' ! x) = chain_gain bs g chain'))"
proof (induction depth arbitrary: i g bs bs')
  case 0
  then show ?case by simp
next
  case (Suc depth)
  show ?case
  proof (cases "length bs \<le> i")
    case True
    with Suc.prems have same: "bs' = bs" by simp
    have "\<And>x chain. \<not> chain_from_to bs i x chain"
    proof
      fix x chain
      assume "chain_from_to bs i x chain"
      then have "i < length bs"
        using is_chain_hd [of bs chain] by (simp add: chain_from_to_def)
      with True show False by simp
    qed
    with same show ?thesis by simp
  next
    case False
    then have i: "i < length bs" by simp
    define g' where "g' = g * bus_def_gain (bus_def (bs ! i)) * duck_gain (bs ! i)"
    define bs1 where "bs1 = bs[i := (bs ! i)\<lparr>bus_gain := g'\<rparr>]"
    define W where "W = (\<lambda>(y :: Bus list) x. \<exists>chain. chain_from_to bs i x chain
                                \<and> bus_gain (y ! x) = chain_gain bs g chain)"
    define I where "I = (\<lambda>seen (y :: Bus list).
        shape y = shape bs
      \<and> (\<forall>x < length bs. bus_gain (y ! x) = bus_gain (bs ! x) \<or> W y x)
      \<and> W y i
      \<and> (\<forall>c \<in> set seen. \<forall>x chain. chain_from_to bs c x chain \<longrightarrow> W y x))"
    from Suc.prems False
    have run: "fold (\<lambda>child r. case r of None \<Rightarrow> None | Some x \<Rightarrow> UpdateGain depth child g' x)
                 (child_buses (bs ! i)) (Some bs1) = Some bs'"
      unfolding g'_def bs1_def by (simp add: Let_def)
    have base: "I [] bs1"
    proof -
      have "chain_from_to bs i i [i]"
        using i by (simp add: chain_from_to_def)
      moreover have "bus_gain (bs1 ! i) = chain_gain bs g [i]"
        using i by (simp add: bs1_def g'_def chain_gain_def)
      ultimately have "W bs1 i" unfolding W_def by blast
      moreover have "\<forall>x < length bs. bus_gain (bs1 ! x) = bus_gain (bs ! x) \<or> W bs1 x"
      proof (intro allI impI)
        fix x assume "x < length bs"
        show "bus_gain (bs1 ! x) = bus_gain (bs ! x) \<or> W bs1 x"
        proof (cases "x = i")
          case True
          with \<open>W bs1 i\<close> show ?thesis by simp
        next
          case False
          then show ?thesis by (simp add: bs1_def)
        qed
      qed
      moreover have "shape bs1 = shape bs"
        by (simp add: bs1_def shape_update_gain)
      ultimately show ?thesis by (simp add: I_def)
    qed
    have step: "I (seen @ [c]) y'"
      if inv: "I seen y" and c: "c \<in> set (child_buses (bs ! i))"
        and call: "UpdateGain depth c g' y = Some y'" for seen c y y'
    proof -
      from inv have sh: "shape y = shape bs" by (simp add: I_def)
      then have len: "length y = length bs" by (rule shape_eq_length)
      note ih = Suc.IH [OF call]
      from ih sh have sh': "shape y' = shape bs" by simp
      have lift: "W y' x"
        if "chain_from_to y c x chain" and "bus_gain (y' ! x) = chain_gain y g' chain" for x chain
      proof -
        from that(1) have cf: "chain_from_to bs c x chain"
          by (simp only: shape_eq_chain_from_to [OF sh])
        then have "is_chain bs chain" by (simp add: chain_from_to_def)
        from shape_eq_chain_gain [OF sh this] that(2)
        have "bus_gain (y' ! x) = chain_gain bs g (i # chain)"
          by (simp add: chain_gain_Cons g'_def)
        with chain_from_to_Cons [OF cf i c] show ?thesis unfolding W_def by blast
      qed
      have keep: "W y' x" if "W y x" and "x < length bs" for x
      proof -
        from ih that(2) len
        have "bus_gain (y' ! x) = bus_gain (y ! x)
            \<or> (\<exists>chain. chain_from_to y c x chain \<and> bus_gain (y' ! x) = chain_gain y g' chain)"
          by simp
        then show ?thesis
        proof
          assume "bus_gain (y' ! x) = bus_gain (y ! x)"
          with that(1) show ?thesis unfolding W_def by simp
        next
          assume "\<exists>chain. chain_from_to y c x chain \<and> bus_gain (y' ! x) = chain_gain y g' chain"
          then obtain chain where
            "chain_from_to y c x chain" "bus_gain (y' ! x) = chain_gain y g' chain"
            by blast
          then show ?thesis by (rule lift)
        qed
      qed
      have second: "\<forall>x < length bs. bus_gain (y' ! x) = bus_gain (bs ! x) \<or> W y' x"
      proof (intro allI impI)
        fix x assume x: "x < length bs"
        from inv x have old: "bus_gain (y ! x) = bus_gain (bs ! x) \<or> W y x"
          by (simp add: I_def)
        from ih x len
        have new: "bus_gain (y' ! x) = bus_gain (y ! x)
            \<or> (\<exists>chain. chain_from_to y c x chain \<and> bus_gain (y' ! x) = chain_gain y g' chain)"
          by simp
        from new show "bus_gain (y' ! x) = bus_gain (bs ! x) \<or> W y' x"
        proof
          assume same: "bus_gain (y' ! x) = bus_gain (y ! x)"
          from old show ?thesis
          proof
            assume "bus_gain (y ! x) = bus_gain (bs ! x)"
            with same show ?thesis by simp
          next
            assume "W y x"
            then have "W y' x" using x by (rule keep)
            then show ?thesis ..
          qed
        next
          assume "\<exists>chain. chain_from_to y c x chain \<and> bus_gain (y' ! x) = chain_gain y g' chain"
          then obtain chain where
            "chain_from_to y c x chain" "bus_gain (y' ! x) = chain_gain y g' chain"
            by blast
          then have "W y' x" by (rule lift)
          then show ?thesis ..
        qed
      qed
      have third: "W y' i"
        using inv keep [OF _ i] by (simp add: I_def)
      have fourth: "\<forall>c0 \<in> set (seen @ [c]). \<forall>x chain. chain_from_to bs c0 x chain \<longrightarrow> W y' x"
      proof (intro ballI allI impI)
        fix c0 x chain
        assume c0: "c0 \<in> set (seen @ [c])" and cf: "chain_from_to bs c0 x chain"
        from cf have x: "x < length bs"
          using is_chain_last [of bs chain] by (auto simp add: chain_from_to_def)
        show "W y' x"
        proof (cases "c0 = c")
          case True
          with cf have "chain_from_to y c x chain"
            by (simp only: shape_eq_chain_from_to [OF sh])
          with ih obtain chain' where
            "chain_from_to y c x chain'" "bus_gain (y' ! x) = chain_gain y g' chain'"
            by blast
          then show ?thesis by (rule lift)
        next
          case False
          with c0 have "c0 \<in> set seen" by simp
          with inv cf have "W y x" by (auto simp add: I_def)
          then show ?thesis using x by (rule keep)
        qed
      qed
      from sh' second third fourth show ?thesis by (simp add: I_def)
    qed
    have final: "I ([] @ child_buses (bs ! i)) bs'"
      by (rule fold_step_invariant
            [of "\<lambda>child x. UpdateGain depth child g' x" "child_buses (bs ! i)" bs1 bs' I "[]",
             OF run base])
         (rule step)
    then have sh: "shape bs' = shape bs"
      and second: "\<forall>x < length bs. bus_gain (bs' ! x) = bus_gain (bs ! x) \<or> W bs' x"
      and third: "W bs' i"
      and fourth: "\<forall>c \<in> set (child_buses (bs ! i)). \<forall>x chain. chain_from_to bs c x chain \<longrightarrow> W bs' x"
      by (simp_all add: I_def)
    have reach: "W bs' x" if "chain_from_to bs i x chain" for x chain
      using chain_from_to_cases [OF that] third fourth by blast
    from sh second reach show ?thesis
      unfolding W_def by blast
  qed
qed




lemma length_UpdateDuckGain: "length (UpdateDuckGain rate d bs) = length bs"
  by (simp add: UpdateDuckGain_def)

lemma nth_UpdateDuckGain:
  "i < length bs \<Longrightarrow>
   UpdateDuckGain rate d bs ! i
     = (bs ! i)\<lparr>duck_gain := max 0 (min 1 (approach (duck_gain (bs ! i)) (duck_target bs i)
                                      (rate * real_of_int d)))\<rparr>"
  by (simp add: UpdateDuckGain_def)

lemma UpdateDuckGain_counters:
  "map sound_counter (UpdateDuckGain rate d bs) = map sound_counter bs"
  by (rule nth_equalityI) (simp_all add: length_UpdateDuckGain nth_UpdateDuckGain)




lemma AdvanceFrame_Inr:
  assumes "AdvanceFrame depth rate t e = Some (Inr e')"
  shows "playing_sounds e' = playing_sounds e"
    and "push_gains (buses e') (playing_sounds e) (mixer e) = Inr (mixer e')"
    and "shape (buses e') = shape (UpdateDuckGain rate (t - world_time e) (buses e))"
    and "master_bus e = Some master \<Longrightarrow>
         UpdateGain depth master (if mute e then 0 else master_gain e)
           (UpdateDuckGain rate (t - world_time e) (buses e)) = Some (buses e')"
proof -
  let ?bs1 = "UpdateDuckGain rate (t - world_time e) (buses e)"
  from assms obtain bs2 m where
    upd: "(case master_bus e of None \<Rightarrow> Some ?bs1
           | Some master \<Rightarrow> UpdateGain depth master (if mute e then 0 else master_gain e) ?bs1)
          = Some bs2"
    and push: "push_gains bs2 (playing_sounds e) (mixer e) = Inr m"
    and e': "e' = e\<lparr>world_time := t, buses := bs2, mixer := m\<rparr>"
    by (auto simp add: AdvanceFrame_def Let_def split: option.splits sum.splits)
  show "playing_sounds e' = playing_sounds e" using e' by simp
  show "push_gains (buses e') (playing_sounds e) (mixer e) = Inr (mixer e')"
    using e' push by simp
  show "shape (buses e') = shape ?bs1"
  proof (cases "master_bus e")
    case None
    with upd e' show ?thesis by simp
  next
    case (Some master)
    with upd have "UpdateGain depth master (if mute e then 0 else master_gain e) ?bs1 = Some bs2"
      by simp
    from UpdateGain_effect [OF this] e' show ?thesis by simp
  qed
  show "UpdateGain depth master (if mute e then 0 else master_gain e) ?bs1 = Some (buses e')"
    if "master_bus e = Some master"
    using that upd e' by simp
qed

lemma AdvanceFrame_counters:
  assumes "AdvanceFrame depth rate t e = Some (Inr e')"
  shows "map sound_counter (buses e') = map sound_counter (buses e)"
  using shape_eq_counters [OF AdvanceFrame_Inr(3) [OF assms]]
  by (simp add: UpdateDuckGain_counters)





lemma accounted_construct:
  assumes "accounted bs live"
  shows "accounted (snd (PlayingSound_construct collection cid time bs))
           (live @ [fst (PlayingSound_construct collection cid time bs)])"
  unfolding PlayingSound_construct_def increment_bus_adjust snd_conv fst_conv
  by (rule accounted_adjust [OF assms]) (simp add: bound_to_append bound_to_Cons bound_to_Nil)

lemma accounted_copy:
  assumes "accounted bs live"
  shows "accounted (snd (PlayingSound_copy other bs)) (live @ [fst (PlayingSound_copy other bs)])"
  unfolding PlayingSound_copy_eq snd_conv fst_conv
  by (rule accounted_adjust [OF assms]) (simp add: bound_to_append bound_to_Cons bound_to_Nil)

lemma accounted_destroy:
  assumes "accounted bs (xs @ this # ys)"
  shows "accounted (PlayingSound_destroy this bs) (xs @ ys)"
  unfolding PlayingSound_destroy_eq
  by (rule accounted_adjust [OF assms]) (simp add: bound_to_append bound_to_Cons bound_to_Nil)

lemma accounted_assign:
  assumes "accounted bs (xs @ this # ys)"
  shows "accounted (snd (PlayingSound_assign this other bs))
           (xs @ fst (PlayingSound_assign this other bs) # ys)"
  unfolding PlayingSound_assign_eq snd_conv fst_conv
  by (rule accounted_adjust [OF assms]) (simp add: bound_to_append bound_to_Cons bound_to_Nil)

lemma accounted_AdvanceFrame:
  assumes "AdvanceFrame depth rate t e = Some (Inr e')"
    and "accounted (buses e) (playing_sounds e)"
  shows "accounted (buses e') (playing_sounds e')"
  using assms(2)
  by (simp only: accounted_counters_cong [OF AdvanceFrame_counters [OF assms(1)]]
        AdvanceFrame_Inr(1) [OF assms(1)])

text \<open>
  C4, as the code has it. Each special member of \<open>PlayingSound\<close> keeps every bus's
  counter equal to the number of live \<open>PlayingSound\<close> objects bound to the bus: the
  entries of the table and the temporaries alive at that point. \<open>PlaySound\<close>,
  \<open>AdvanceFrame\<close>, the pruning of finished sounds and \<open>EraseStreams\<close> leave no temporary
  alive, so when they return every bus's counter is the number of entries of
  \<open>playing_sounds\<close> bound to it.
\<close>

theorem sound_counter_accounting:
  assumes "rearranges std_sort"
    and "accounted (buses e) (playing_sounds e)"
  shows "(\<forall>channel e'.
            PlaySound std_sort source mixer_accepts sound_handle e = Inr (channel, e') \<longrightarrow>
            accounted (buses e') (playing_sounds e'))
       \<and> (\<forall>e'. EraseFinishedSounds e = Inr e' \<longrightarrow> accounted (buses e') (playing_sounds e'))
       \<and> accounted (buses (EraseStreams e)) (playing_sounds (EraseStreams e))
       \<and> (\<forall>e'. AdvanceFrame depth rate t e = Some (Inr e') \<longrightarrow>
              accounted (buses e') (playing_sounds e'))
       \<and> (\<forall>bs live collection cid time.
            accounted bs live \<longrightarrow>
            accounted (snd (PlayingSound_construct collection cid time bs))
              (live @ [fst (PlayingSound_construct collection cid time bs)]))
       \<and> (\<forall>bs live other.
            accounted bs live \<longrightarrow>
            accounted (snd (PlayingSound_copy other bs)) (live @ [fst (PlayingSound_copy other bs)]))
       \<and> (\<forall>bs xs this ys other.
            accounted bs (xs @ this # ys) \<longrightarrow>
            accounted (snd (PlayingSound_assign this other bs))
              (xs @ fst (PlayingSound_assign this other bs) # ys))
       \<and> (\<forall>bs xs this ys.
            accounted bs (xs @ this # ys) \<longrightarrow> accounted (PlayingSound_destroy this bs) (xs @ ys))"
proof -
  have play: "\<forall>channel e'.
            PlaySound std_sort source mixer_accepts sound_handle e = Inr (channel, e') \<longrightarrow>
            accounted (buses e') (playing_sounds e')"
    using accounted_PlaySound [OF assms] by blast
  have prune: "\<forall>e'. EraseFinishedSounds e = Inr e' \<longrightarrow> accounted (buses e') (playing_sounds e')"
    using accounted_EraseFinishedSounds [OF _ assms(2)] by blast
  have streams: "accounted (buses (EraseStreams e)) (playing_sounds (EraseStreams e))"
    by (rule accounted_EraseStreams [OF assms(2)])
  have frame: "\<forall>e'. AdvanceFrame depth rate t e = Some (Inr e') \<longrightarrow>
              accounted (buses e') (playing_sounds e')"
    using accounted_AdvanceFrame [OF _ assms(2)] by blast
  from play prune streams frame show ?thesis
    by (intro conjI allI impI)
       (simp_all add: accounted_construct accounted_copy accounted_assign accounted_destroy)
qed

theorem sound_counter_accounting_witness:
  "rearranges (insertion_sort :: PlayingSound sort_routine)
   \<and> accounted
        (buses (example_engine [example_sound (example_effect ''low'' 1) 0 1,
                                example_sound (example_effect ''mid'' 5) 1 2]
                  (example_mixer 2 [0, 1] False)))
        (playing_sounds (example_engine [example_sound (example_effect ''low'' 1) 0 1,
                                         example_sound (example_effect ''mid'' 5) 1 2]
                           (example_mixer 2 [0, 1] False)))
   \<and> (case PlaySound insertion_sort example_buffer True (Some (example_effect ''high'' 10))
              (example_engine [example_sound (example_effect ''low'' 1) 0 1,
                               example_sound (example_effect ''mid'' 5) 1 2]
                 (example_mixer 2 [0, 1] False)) of
         Inl err \<Rightarrow> False
       | Inr (channel, e') \<Rightarrow> accounted (buses e') (playing_sounds e'))"
proof -
  let ?e = "example_engine [example_sound (example_effect ''low'' 1) 0 1,
                            example_sound (example_effect ''mid'' 5) 1 2]
              (example_mixer 2 [0, 1] False)"
  have r: "rearranges (insertion_sort :: PlayingSound sort_routine)"
    by (rule rearranges_insertion_sort)
  have acc: "accounted (buses ?e) (playing_sounds ?e)"
    by code_simp
  have "case PlaySound insertion_sort example_buffer True (Some (example_effect ''high'' 10)) ?e of
          Inl err \<Rightarrow> False | Inr result \<Rightarrow> True"
    by code_simp
  then obtain channel e' where
    run: "PlaySound insertion_sort example_buffer True (Some (example_effect ''high'' 10)) ?e
            = Inr (channel, e')"
    by (cases "PlaySound insertion_sort example_buffer True (Some (example_effect ''high'' 10)) ?e")
       auto
  from sound_counter_accounting
         [OF r acc, of example_buffer True "Some (example_effect ''high'' 10)", THEN conjunct1]
       run
  have "accounted (buses e') (playing_sounds e')" by blast
  with r acc run show ?thesis by simp
qed

text \<open>
  C4, as the claim states it, fails inside \<open>PlaySound\<close>. From an empty table and a
  bus counter of 0, the construction of the temporary in
  \<^verbatim>\<open>push_back(PlayingSound(collection, new_channel, world_time_))\<close> leaves the counter at 1
  with no entry in the table; the copy into the table leaves the counter at 2 with one
  entry; only the destruction of the temporary makes counter and entries agree again.
\<close>

theorem sound_counter_accounting_counterexample:
  "accounted [example_bus ''master'' 1 [] 1 0] []
   \<and> (let (temporary, bs1) =
            PlayingSound_construct (example_effect ''a'' 1) 0 7 [example_bus ''master'' 1 [] 1 0]
      in \<not> accounted bs1 []
       \<and> sound_counter (bs1 ! 0) = 1
       \<and> (let (v, bs2) = vector_push_back [] temporary bs1
          in \<not> accounted bs2 v
           \<and> sound_counter (bs2 ! 0) = 2
           \<and> length v = 1
           \<and> accounted (PlayingSound_destroy temporary bs2) v))"
  by code_simp

text \<open>
  C7. Two banks list the collection \<^verbatim>\<open>explosion\<close>. Load \<^verbatim>\<open>a.bank\<close>, unload it, load it
  again, load \<^verbatim>\<open>b.bank\<close>, unload \<^verbatim>\<open>b.bank\<close>; every load reports success. The
  claim has \<^verbatim>\<open>explosion\<close> stay loaded until both banks are unloaded. On the code the
  unload of \<^verbatim>\<open>a.bank\<close> deinitialises the bank and keeps its entry, so the second load
  of \<^verbatim>\<open>a.bank\<close> only counts: \<^verbatim>\<open>explosion\<close> is not loaded after it, and once
  \<^verbatim>\<open>b.bank\<close> is unloaded \<^verbatim>\<open>explosion\<close> is released while the counter of
  \<^verbatim>\<open>a.bank\<close> is 1.
\<close>

theorem reloaded_bank_does_not_hold_its_collections:
  "(let (loaded1, e1) = LoadSoundBank (SoundBank_Initialize example_files) ''a.bank''
                          (example_engine [] (example_mixer 2 [] False))
    in case UnloadSoundBank SoundBank_Deinitialize ''a.bank'' e1 of
         Inl err \<Rightarrow> False
       | Inr e2 \<Rightarrow>
           (let (loaded3, e3) = LoadSoundBank (SoundBank_Initialize example_files) ''a.bank'' e2;
                (loaded4, e4) = LoadSoundBank (SoundBank_Initialize example_files) ''b.bank'' e3
            in case UnloadSoundBank SoundBank_Deinitialize ''b.bank'' e4 of
                 Inl err \<Rightarrow> False
               | Inr e5 \<Rightarrow>
                   loaded1 \<and> loaded3 \<and> loaded4
                 \<and> GetSoundHandle e1 ''explosion'' \<noteq> None
                 \<and> map_option ref_counter (sound_bank_map e2 ''a.bank'') = Some 0
                 \<and> map_option ref_counter (sound_bank_map e3 ''a.bank'') = Some 1
                 \<and> GetSoundHandle e3 ''explosion'' = None
                 \<and> map_option ref_counter (sound_bank_map e4 ''b.bank'') = Some 1
                 \<and> GetSoundHandle e4 ''explosion'' \<noteq> None
                 \<and> map_option ref_counter (sound_bank_map e5 ''a.bank'') = Some 1
                 \<and> map_option ref_counter (sound_bank_map e5 ''b.bank'') = Some 0
                 \<and> GetSoundHandle e5 ''explosion'' = None))"
  by code_simp

end
